theory Spec2Isabelle
  imports Complex_Main
begin

section \<open>Data model of the breakout store\<close>

text \<open>
  The store of \<^verbatim>\<open>pages/breakout/store.tsx\<close> keeps three inputs (the main field and two
  filter lists), publishes seven derived fields and wires five subscriptions over them.
  Every object that carries a field id extends \<open>has_fid\<close>, so that \<open>fid x\<close> reads it as
  \<^verbatim>\<open>x.fid\<close> does in the source.
\<close>

datatype aggregator = Mean | Sum | Count

datatype semantic_type = Quantitative | Ordinal | Nominal | Temporal

record has_fid =
  fid :: string

text \<open>\<^verbatim>\<open>IFieldMeta\<close>: of its attributes the store reads the id, the name and the semantic type.\<close>

record field_meta = has_fid +
  name :: string
  semanticType :: semantic_type

text \<open>\<^verbatim>\<open>BreakoutMainField = { fid, aggregator }\<close>.\<close>

record main_field = has_fid +
  aggregator :: aggregator

text \<open>
  \<^verbatim>\<open>IFilter\<close>: a set filter \<^verbatim>\<open>{ fid, type: 'set', values }\<close> or a range filter
  \<^verbatim>\<open>{ fid, type: 'range', range: [lo, hi] }\<close>. The store itself only reads \<open>fid\<close>.
\<close>

datatype 'v filter_test = OneOf "'v list" | Range 'v 'v

record 'v ifilter = has_fid +
  test :: "'v filter_test"

text \<open>The value of \<^verbatim>\<open>resolveCompareTarget\<close>, when it is not null, is read at \<^verbatim>\<open>.field\<close>.\<close>

record compare_target =
  field :: field_meta

text \<open>
  \<^verbatim>\<open>FieldStats = { definition, field, stats }\<close>; \<open>stats\<close> is indexed by an aggregator
  (\<^verbatim>\<open>globalStats.stats[mainField.aggregator]\<close>). The source's \<^verbatim>\<open>definition\<close> is \<open>defn\<close> here.
\<close>

record 'n field_stats =
  defn :: main_field
  stats_field :: field_meta
  stats :: "aggregator \<Rightarrow> 'n"

text \<open>
  The three inputs, as the object that \<^verbatim>\<open>combineLatest\<close> emits. The same shape, over
  annotated members, is \<^verbatim>\<open>BreakoutStoreExports\<close>.
\<close>

record ('m, 'f) input =
  mainField :: "'m option"
  mainFieldFilters :: "'f list"
  comparisonFilters :: "'f list"

text \<open>
  \<^verbatim>\<open>IExportFilter\<close> and \<^verbatim>\<open>BreakoutMainFieldExport\<close>: the object spread
  \<^verbatim>\<open>{ ...x, name, semanticType }\<close> keeps every property of \<open>x\<close> and adds the two picked from
  the field's metadata.
\<close>

record 'a exported =
  spread :: 'a
  export_name :: string
  export_semanticType :: semantic_type

type_synonym 'v store_exports = "(main_field exported, 'v ifilter exported) input"

text \<open>The values the stages of the pipeline hand on.\<close>

record ('v, 'n) global_out = "(main_field, 'v ifilter) input" +
  targetField :: "compare_target option"
  g_globalStats :: "'n field_stats option"

record ('row, 'n) mainGroup_out =
  m_data :: "'row list"
  m_stats :: "'n field_stats option"
  m_mainField :: "main_field option"
  m_globalStats :: "'n field_stats option"

record ('row, 'n) compareGroup_out =
  c_data :: "'row list"
  c_stats :: "'n field_stats option"

text \<open>
  What the constructor closes over: the dataset, the field metadata, and the five
  functions the store imports from modules that are not part of these sources
  (\<^verbatim>\<open>components/controlPanel\<close>, \<^verbatim>\<open>utils/stats\<close>, \<^verbatim>\<open>utils/top-drivers\<close>). They are parameters
  of the model: every statement below holds for whatever these functions compute.
  \<^verbatim>\<open>applyDividers\<close> returns an array whose first element is the matched rows; the pair's
  first component stands for it.
\<close>

record ('row, 'v, 'n, 'r) deps =
  data :: "'row list"
  fieldMetas :: "field_meta list"
  resolveCompareTarget :: "main_field \<Rightarrow> field_meta list \<Rightarrow> compare_target option"
  applyDividers :: "'row list \<Rightarrow> 'v ifilter list \<Rightarrow> 'row list \<times> 'row list"
  statDivision :: "'row list \<Rightarrow> 'row list \<Rightarrow> field_meta list \<Rightarrow> string \<Rightarrow> aggregator \<Rightarrow> 'n"
  analyzeContributions :: "'row list \<Rightarrow> field_meta list \<Rightarrow> main_field \<Rightarrow> 'n \<Rightarrow> 'r list"
  analyzeComparisons :: "'row list \<Rightarrow> 'row list \<Rightarrow> field_meta list \<Rightarrow> main_field \<Rightarrow> 'r list"

datatype error = TypeError

section \<open>The stages of the pipeline\<close>

text \<open>The callback of \<^verbatim>\<open>global$\<close> (store.tsx, lines 116-132).\<close>

definition global_stage ::
  "('row, 'v, 'n, 'r) deps \<Rightarrow> (main_field, 'v ifilter) input \<Rightarrow> ('v, 'n) global_out" where
  "global_stage cfg inp =
     (let target = (case mainField inp of
                      None \<Rightarrow> None
                    | Some mf \<Rightarrow> resolveCompareTarget cfg mf (fieldMetas cfg));
          gstats = (case mainField inp of
                      None \<Rightarrow> None
                    | Some mf \<Rightarrow>
                        (case target of
                           None \<Rightarrow> None
                         | Some t \<Rightarrow>
                             Some \<lparr>defn = mf, stats_field = field t,
                                   stats = statDivision cfg (data cfg) (data cfg) (fieldMetas cfg)
                                             (fid (field t))\<rparr>))
      in \<lparr>mainField = mainField inp, mainFieldFilters = mainFieldFilters inp,
          comparisonFilters = comparisonFilters inp,
          targetField = target, g_globalStats = gstats\<rparr>)"

text \<open>The callback of \<^verbatim>\<open>mainGroup$\<close> (lines 136-148).\<close>

definition mainGroup_stage ::
  "('row, 'v, 'n, 'r) deps \<Rightarrow> ('v, 'n) global_out \<Rightarrow> ('row, 'n) mainGroup_out" where
  "mainGroup_stage cfg g =
     (let filtered = fst (applyDividers cfg (data cfg) (mainFieldFilters g));
          st = (case mainField g of
                  None \<Rightarrow> None
                | Some mf \<Rightarrow>
                    (case targetField g of
                       None \<Rightarrow> None
                     | Some t \<Rightarrow>
                         if length (mainFieldFilters g) > 0
                         then Some \<lparr>defn = mf, stats_field = field t,
                                    stats = statDivision cfg (data cfg) filtered (fieldMetas cfg)
                                              (fid mf)\<rparr>
                         else None))
      in \<lparr>m_data = filtered, m_stats = st, m_mainField = mainField g,
          m_globalStats = g_globalStats g\<rparr>)"

text \<open>The callback of \<^verbatim>\<open>generalAnalyses$\<close> (lines 152-162).\<close>

definition generalAnalyses_stage ::
  "('row, 'v, 'n, 'r) deps \<Rightarrow> ('row, 'n) mainGroup_out \<Rightarrow> 'r list" where
  "generalAnalyses_stage cfg m =
     (case m_mainField m of
        None \<Rightarrow> []
      | Some mf \<Rightarrow>
          (case m_globalStats m of
             None \<Rightarrow> []
           | Some gs \<Rightarrow>
               analyzeContributions cfg (m_data m) (fieldMetas cfg) mf (stats gs (aggregator mf))))"

text \<open>
  The callback of \<^verbatim>\<open>compareGroup$\<close> (lines 166-180). The non-null assertion
  \<^verbatim>\<open>resolveCompareTarget(mainField, fields)!.field\<close> is erased by the compiler: on null the
  property read throws a \<^verbatim>\<open>TypeError\<close>, before \<^verbatim>\<open>statDivision\<close> is called.
\<close>

definition compareGroup_stage ::
  "('row, 'v, 'n, 'r) deps \<Rightarrow> ('v, 'n) global_out \<Rightarrow> error + ('row, 'n) compareGroup_out" where
  "compareGroup_stage cfg g =
     (case mainField g of
        None \<Rightarrow> Inr \<lparr>c_data = [], c_stats = None\<rparr>
      | Some mf \<Rightarrow>
          (case g_globalStats g of
             None \<Rightarrow> Inr \<lparr>c_data = [], c_stats = None\<rparr>
           | Some gs \<Rightarrow>
               if length (comparisonFilters g) = 0 then Inr \<lparr>c_data = [], c_stats = None\<rparr>
               else
                 (let filtered = fst (applyDividers cfg (data cfg) (comparisonFilters g))
                  in case resolveCompareTarget cfg mf (fieldMetas cfg) of
                       None \<Rightarrow> Inl TypeError
                     | Some t \<Rightarrow>
                         Inr \<lparr>c_data = filtered,
                              c_stats = Some \<lparr>defn = mf, stats_field = field t,
                                               stats = statDivision cfg (data cfg) filtered
                                                         (fieldMetas cfg) (fid mf)\<rparr>\<rparr>)))"

text \<open>The callback of \<^verbatim>\<open>comparisonAnalyses$\<close> (lines 190-202).\<close>

definition comparisonAnalyses_stage ::
  "('row, 'v, 'n, 'r) deps \<Rightarrow> ('row, 'n) mainGroup_out \<Rightarrow> ('row, 'n) compareGroup_out \<Rightarrow>
     ('v, 'n) global_out \<Rightarrow> 'r list" where
  "comparisonAnalyses_stage cfg m c g =
     (case mainField g of
        None \<Rightarrow> []
      | Some mf \<Rightarrow>
          if length (comparisonFilters g) = 0 then []
          else analyzeComparisons cfg (m_data m) (c_data c) (fieldMetas cfg) mf)"

section \<open>Export\<close>

text \<open>
  \<^verbatim>\<open>exportFilters\<close> (lines 43-56): the loop pushes onto \<open>result\<close>; \<^verbatim>\<open>Array.prototype.find\<close>
  returns the first metadata entry with the filter's id, or undefined.
\<close>

fun exportFilters_loop ::
  "'v ifilter exported list \<Rightarrow> 'v ifilter list \<Rightarrow> field_meta list \<Rightarrow> 'v ifilter exported list" where
  "exportFilters_loop result [] metas = result"
| "exportFilters_loop result (f # rest) metas =
     (case find (\<lambda>m. fid m = fid f) metas of
        Some m \<Rightarrow>
          exportFilters_loop
            (result @ [\<lparr>spread = f, export_name = name m, export_semanticType = semanticType m\<rparr>])
            rest metas
      | None \<Rightarrow> exportFilters_loop result rest metas)"

definition exportFilters :: "'v ifilter list \<Rightarrow> field_meta list \<Rightarrow> 'v ifilter exported list" where
  "exportFilters filters metas = exportFilters_loop [] filters metas"

text \<open>\<^verbatim>\<open>BreakoutStore.export\<close> (lines 237-248), on the inputs of a store.\<close>

definition export_store ::
  "('row, 'v, 'n, 'r) deps \<Rightarrow> (main_field, 'v ifilter, 'x) input_scheme \<Rightarrow> 'v store_exports" where
  "export_store cfg s =
     (let main = (case mainField s of
                    None \<Rightarrow> None
                  | Some mf \<Rightarrow> resolveCompareTarget cfg mf (fieldMetas cfg))
      in \<lparr>mainField =
            (case main of
               Some t \<Rightarrow>
                 (case mainField s of
                    Some mf \<Rightarrow> Some \<lparr>spread = mf, export_name = name (field t),
                                       export_semanticType = semanticType (field t)\<rparr>
                  | None \<Rightarrow> None)
             | None \<Rightarrow> None),
          mainFieldFilters = exportFilters (mainFieldFilters s) (fieldMetas cfg),
          comparisonFilters = exportFilters (comparisonFilters s) (fieldMetas cfg)\<rparr>)"

section \<open>The store and its subscriptions\<close>

text \<open>The public members of \<^verbatim>\<open>BreakoutStore\<close> (lines 60-76): the inputs and the published fields.\<close>

record ('row, 'v, 'n, 'r) store = "(main_field, 'v ifilter) input" +
  selection :: "'row list"
  diffGroup :: "'row list"
  globalStats :: "'n field_stats option"
  selectionStats :: "'n field_stats option"
  diffStats :: "'n field_stats option"
  generalAnalyses :: "'r list"
  comparisonAnalyses :: "'r list"

text \<open>
  The constructor subscribes five observers (lines 205-226). Every observable of the file
  is cold (\<^verbatim>\<open>pipe\<close>, \<^verbatim>\<open>map\<close>, \<^verbatim>\<open>throttleTime\<close> and \<^verbatim>\<open>combineLatest\<close> subscribe to their source
  anew for each subscriber, and nothing is shared), so each path from a subscriber up to
  \<^verbatim>\<open>inputFlow$\<close> is a chain of its own, with its own \<^verbatim>\<open>throttleTime\<close>: one for each of the
  first four subscribers, and three below \<^verbatim>\<open>comparisonBase$\<close>, which combines
  \<^verbatim>\<open>mainGroup$\<close>, \<^verbatim>\<open>compareGroup$\<close> and \<^verbatim>\<open>global$\<close> in this order.
\<close>

datatype chain =
  GlobalSub | MainGroupSub | GeneralSub | CompareSub | BaseMain | BaseCompare | BaseGlobal

definition all_chains :: "chain list" where
  "all_chains = [GlobalSub, MainGroupSub, GeneralSub, CompareSub, BaseMain, BaseCompare, BaseGlobal]"

text \<open>The chains each of the five subscriptions owns, in the order of the array.\<close>

definition subscriptions :: "chain list list" where
  "subscriptions =
     [[GlobalSub], [MainGroupSub], [GeneralSub], [CompareSub], [BaseMain, BaseCompare, BaseGlobal]]"

text \<open>
  The state of one \<^verbatim>\<open>throttleTime(200, undefined, { leading: true, trailing: true })\<close>:
  unsubscribed; idle; or throttling, with the milliseconds left on its timer and the
  value to send when the timer ends, if one has arrived.
\<close>

datatype 'i throttle = Closed | Idle | Throttled nat "'i option"

definition throttle_ms :: nat where
  "throttle_ms = 200"

text \<open>
  The store together with what its constructor keeps in closures: the throttle of each
  chain and the latest values held by \<^verbatim>\<open>comparisonBase$\<close>. The two counters are not state of
  the program: they count the calls of the two analyzers.
\<close>

record ('row, 'v, 'n, 'r) runtime = "('row, 'v, 'n, 'r) store" +
  throttle :: "chain \<Rightarrow> (main_field, 'v ifilter) input throttle"
  latest_mainGroup :: "('row, 'n) mainGroup_out option"
  latest_compareGroup :: "('row, 'n) compareGroup_out option"
  latest_global :: "('v, 'n) global_out option"
  contributions_calls :: nat
  comparisons_calls :: nat

text \<open>The protected update methods (lines 262-282).\<close>

definition updateGlobalStats ::
  "'n field_stats option \<Rightarrow> ('row, 'v, 'n, 'r, 'x) store_scheme \<Rightarrow> ('row, 'v, 'n, 'r, 'x) store_scheme" where
  "updateGlobalStats st s = s\<lparr>globalStats := st\<rparr>"

definition updateMainGroupStats ::
  "'row list \<Rightarrow> 'n field_stats option \<Rightarrow> ('row, 'v, 'n, 'r, 'x) store_scheme \<Rightarrow>
     ('row, 'v, 'n, 'r, 'x) store_scheme" where
  "updateMainGroupStats d st s = s\<lparr>selection := d, selectionStats := st\<rparr>"

definition updateGeneralAnalyses ::
  "'r list \<Rightarrow> ('row, 'v, 'n, 'r, 'x) store_scheme \<Rightarrow> ('row, 'v, 'n, 'r, 'x) store_scheme" where
  "updateGeneralAnalyses a s = s\<lparr>generalAnalyses := a\<rparr>"

definition updateComparisonGroupStats ::
  "'row list \<Rightarrow> 'n field_stats option \<Rightarrow> ('row, 'v, 'n, 'r, 'x) store_scheme \<Rightarrow>
     ('row, 'v, 'n, 'r, 'x) store_scheme" where
  "updateComparisonGroupStats d st s = s\<lparr>diffGroup := d, diffStats := st\<rparr>"

definition updateComparisonAnalyses ::
  "'r list \<Rightarrow> ('row, 'v, 'n, 'r, 'x) store_scheme \<Rightarrow> ('row, 'v, 'n, 'r, 'x) store_scheme" where
  "updateComparisonAnalyses a s = s\<lparr>comparisonAnalyses := a\<rparr>"

text \<open>
  Modelled from the spec: \<^verbatim>\<open>toStream\<close> of \<^verbatim>\<open>utils/mobx-utils\<close> (not among the sources), from
  sections 4.5, 5 and 9: the stream of an input emits the input's value when it is
  subscribed (its second argument is \<^verbatim>\<open>true\<close>) and again, synchronously, whenever a setter
  replaces the input by another reference. \<^verbatim>\<open>inputFlow$\<close> combines the three streams, so
  what it emits is the object of the three current inputs.
\<close>

definition inputs :: "(main_field, 'v ifilter, 'x) input_scheme \<Rightarrow> (main_field, 'v ifilter) input" where
  "inputs s = \<lparr>mainField = mainField s, mainFieldFilters = mainFieldFilters s,
               comparisonFilters = comparisonFilters s\<rparr>"

text \<open>Whether the two callbacks reach their call of an analyzer (the same tests as the stages).\<close>

definition generalAnalyses_calls :: "('row, 'n) mainGroup_out \<Rightarrow> nat" where
  "generalAnalyses_calls m =
     (case m_mainField m of
        None \<Rightarrow> 0
      | Some mf \<Rightarrow> (case m_globalStats m of None \<Rightarrow> 0 | Some gs \<Rightarrow> 1))"

definition comparisonAnalyses_calls :: "('v, 'n) global_out \<Rightarrow> nat" where
  "comparisonAnalyses_calls g =
     (case mainField g of
        None \<Rightarrow> 0
      | Some mf \<Rightarrow> if length (comparisonFilters g) = 0 then 0 else 1)"

text \<open>
  An error thrown in a \<^verbatim>\<open>map\<close> callback is delivered down the chain as an error
  notification, which ends the subscription it reaches.
\<close>

definition close_chains ::
  "chain list \<Rightarrow> ('row, 'v, 'n, 'r) runtime \<Rightarrow> ('row, 'v, 'n, 'r) runtime" where
  "close_chains cs s = s\<lparr>throttle := (\<lambda>c. if c \<in> set cs then Closed else throttle s c)\<rparr>"

text \<open>
  \<^verbatim>\<open>comparisonBase$\<close> emits once each of its three sources has emitted, and then again
  whenever any of them emits; its observer runs the callback of \<^verbatim>\<open>comparisonAnalyses$\<close>.
\<close>

definition base_emit ::
  "('row, 'v, 'n, 'r) deps \<Rightarrow> ('row, 'v, 'n, 'r) runtime \<Rightarrow> ('row, 'v, 'n, 'r) runtime" where
  "base_emit cfg s =
     (case latest_mainGroup s of
        None \<Rightarrow> s
      | Some m \<Rightarrow>
          (case latest_compareGroup s of
             None \<Rightarrow> s
           | Some c \<Rightarrow>
               (case latest_global s of
                  None \<Rightarrow> s
                | Some g \<Rightarrow>
                    updateComparisonAnalyses (comparisonAnalyses_stage cfg m c g)
                      (s\<lparr>comparisons_calls := comparisons_calls s + comparisonAnalyses_calls g\<rparr>))))"

text \<open>What one chain does with a value that its throttle lets through.\<close>

definition chain_emit ::
  "('row, 'v, 'n, 'r) deps \<Rightarrow> chain \<Rightarrow> (main_field, 'v ifilter) input \<Rightarrow>
     ('row, 'v, 'n, 'r) runtime \<Rightarrow> ('row, 'v, 'n, 'r) runtime" where
  "chain_emit cfg c inp s =
     (let g = global_stage cfg inp in
      case c of
        GlobalSub \<Rightarrow> updateGlobalStats (g_globalStats g) s
      | MainGroupSub \<Rightarrow>
          (let m = mainGroup_stage cfg g in updateMainGroupStats (m_data m) (m_stats m) s)
      | GeneralSub \<Rightarrow>
          (let m = mainGroup_stage cfg g in
           updateGeneralAnalyses (generalAnalyses_stage cfg m)
             (s\<lparr>contributions_calls := contributions_calls s + generalAnalyses_calls m\<rparr>))
      | CompareSub \<Rightarrow>
          (case compareGroup_stage cfg g of
             Inl e \<Rightarrow> close_chains [CompareSub] s
           | Inr r \<Rightarrow> updateComparisonGroupStats (c_data r) (c_stats r) s)
      | BaseMain \<Rightarrow> base_emit cfg (s\<lparr>latest_mainGroup := Some (mainGroup_stage cfg g)\<rparr>)
      | BaseCompare \<Rightarrow>
          (case compareGroup_stage cfg g of
             Inl e \<Rightarrow> close_chains [BaseMain, BaseCompare, BaseGlobal] s
           | Inr r \<Rightarrow> base_emit cfg (s\<lparr>latest_compareGroup := Some r\<rparr>))
      | BaseGlobal \<Rightarrow> base_emit cfg (s\<lparr>latest_global := Some g\<rparr>))"

text \<open>
  \<^verbatim>\<open>throttleTime\<close> with a leading and a trailing edge. A value that arrives while no timer
  runs is sent at once and starts the timer; a value that arrives while the timer runs
  replaces the value kept for the trailing edge. When the timer ends, the kept value, if
  any, is sent and starts the timer again; otherwise the throttle is idle.
\<close>

definition start_throttle ::
  "chain \<Rightarrow> ('row, 'v, 'n, 'r) runtime \<Rightarrow> ('row, 'v, 'n, 'r) runtime" where
  "start_throttle c s =
     (if throttle s c = Closed then s
      else s\<lparr>throttle := (throttle s)(c := Throttled throttle_ms None)\<rparr>)"

definition chain_next ::
  "('row, 'v, 'n, 'r) deps \<Rightarrow> (main_field, 'v ifilter) input \<Rightarrow> chain \<Rightarrow>
     ('row, 'v, 'n, 'r) runtime \<Rightarrow> ('row, 'v, 'n, 'r) runtime" where
  "chain_next cfg inp c s =
     (case throttle s c of
        Closed \<Rightarrow> s
      | Idle \<Rightarrow> start_throttle c (chain_emit cfg c inp s)
      | Throttled r p \<Rightarrow> s\<lparr>throttle := (throttle s)(c := Throttled r (Some inp))\<rparr>)"

definition chain_tick ::
  "('row, 'v, 'n, 'r) deps \<Rightarrow> chain \<Rightarrow> ('row, 'v, 'n, 'r) runtime \<Rightarrow> ('row, 'v, 'n, 'r) runtime" where
  "chain_tick cfg c s =
     (case throttle s c of
        Closed \<Rightarrow> s
      | Idle \<Rightarrow> s
      | Throttled r p \<Rightarrow>
          if 1 < r then s\<lparr>throttle := (throttle s)(c := Throttled (r - 1) p)\<rparr>
          else
            (case p of
               None \<Rightarrow> s\<lparr>throttle := (throttle s)(c := Idle)\<rparr>
             | Some v \<Rightarrow>
                 start_throttle c (chain_emit cfg c v (s\<lparr>throttle := (throttle s)(c := Idle)\<rparr>))))"

text \<open>
  A change of an input runs the reaction of every chain, in the order of subscription, and
  each hands the new inputs to its throttle. One millisecond passing moves every timer;
  timers set in one order end in that order.
\<close>

definition notify ::
  "('row, 'v, 'n, 'r) deps \<Rightarrow> ('row, 'v, 'n, 'r) runtime \<Rightarrow> ('row, 'v, 'n, 'r) runtime" where
  "notify cfg s = fold (chain_next cfg (inputs s)) all_chains s"

definition tick ::
  "('row, 'v, 'n, 'r) deps \<Rightarrow> ('row, 'v, 'n, 'r) runtime \<Rightarrow> ('row, 'v, 'n, 'r) runtime" where
  "tick cfg s = fold (chain_tick cfg) all_chains s"

text \<open>
  The setters (lines 250-260). The inputs are \<^verbatim>\<open>observable.ref\<close>: a reaction runs when the
  reference assigned differs from the one held. An array or object argument is a fresh
  reference here (assigning the very reference held changes nothing at all, and is no
  event); \<^verbatim>\<open>null\<close> assigned over \<^verbatim>\<open>null\<close> is no change.
\<close>

definition setMainField ::
  "('row, 'v, 'n, 'r) deps \<Rightarrow> main_field option \<Rightarrow> ('row, 'v, 'n, 'r) runtime \<Rightarrow>
     ('row, 'v, 'n, 'r) runtime" where
  "setMainField cfg v s =
     (if v = None \<and> mainField s = None then s else notify cfg (s\<lparr>mainField := v\<rparr>))"

definition setMainFieldFilters ::
  "('row, 'v, 'n, 'r) deps \<Rightarrow> 'v ifilter list \<Rightarrow> ('row, 'v, 'n, 'r) runtime \<Rightarrow>
     ('row, 'v, 'n, 'r) runtime" where
  "setMainFieldFilters cfg v s = notify cfg (s\<lparr>mainFieldFilters := v\<rparr>)"

definition setComparisonFilters ::
  "('row, 'v, 'n, 'r) deps \<Rightarrow> 'v ifilter list \<Rightarrow> ('row, 'v, 'n, 'r) runtime \<Rightarrow>
     ('row, 'v, 'n, 'r) runtime" where
  "setComparisonFilters cfg v s = notify cfg (s\<lparr>comparisonFilters := v\<rparr>)"

text \<open>
  \<^verbatim>\<open>destroy\<close> (lines 228-232) unsubscribes the five subscriptions; unsubscribing ends the
  chains below and their timers.
\<close>

definition destroy :: "('row, 'v, 'n, 'r) runtime \<Rightarrow> ('row, 'v, 'n, 'r) runtime" where
  "destroy s = fold close_chains subscriptions s"

text \<open>
  The constructor (lines 78-233): the initial members, then the five subscriptions. The
  input streams fire immediately, so each chain receives the initial inputs when it is
  subscribed.
\<close>

definition initial :: "('row, 'v, 'n, 'r) deps \<Rightarrow> ('row, 'v, 'n, 'r) runtime" where
  "initial cfg =
     \<lparr>mainField = None, mainFieldFilters = [], comparisonFilters = [],
      selection = data cfg, diffGroup = [],
      globalStats = None, selectionStats = None, diffStats = None,
      generalAnalyses = [], comparisonAnalyses = [],
      throttle = (\<lambda>c. Idle),
      latest_mainGroup = None, latest_compareGroup = None, latest_global = None,
      contributions_calls = 0, comparisons_calls = 0\<rparr>"

definition construct :: "('row, 'v, 'n, 'r) deps \<Rightarrow> ('row, 'v, 'n, 'r) runtime" where
  "construct cfg = notify cfg (initial cfg)"

text \<open>What can happen to a constructed store: a call of a public method, or a millisecond passing.\<close>

datatype 'v event =
  SetMainField "main_field option"
| SetMainFieldFilters "'v ifilter list"
| SetComparisonFilters "'v ifilter list"
| Destroy
| Tick

definition step ::
  "('row, 'v, 'n, 'r) deps \<Rightarrow> 'v event \<Rightarrow> ('row, 'v, 'n, 'r) runtime \<Rightarrow> ('row, 'v, 'n, 'r) runtime" where
  "step cfg ev s =
     (case ev of
        SetMainField v \<Rightarrow> setMainField cfg v s
      | SetMainFieldFilters v \<Rightarrow> setMainFieldFilters cfg v s
      | SetComparisonFilters v \<Rightarrow> setComparisonFilters cfg v s
      | Destroy \<Rightarrow> destroy s
      | Tick \<Rightarrow> tick cfg s)"

definition run ::
  "('row, 'v, 'n, 'r) deps \<Rightarrow> 'v event list \<Rightarrow> ('row, 'v, 'n, 'r) runtime \<Rightarrow> ('row, 'v, 'n, 'r) runtime" where
  "run cfg evs s = fold (step cfg) evs s"

text \<open>
  A recomputation wave: every chain lets the same inputs through, in the order of
  subscription.
\<close>

definition wave ::
  "('row, 'v, 'n, 'r) deps \<Rightarrow> (main_field, 'v ifilter) input \<Rightarrow> ('row, 'v, 'n, 'r) runtime \<Rightarrow>
     ('row, 'v, 'n, 'r) runtime" where
  "wave cfg inp s = fold (\<lambda>c. chain_emit cfg c inp) all_chains s"

section \<open>Auxiliary notions\<close>

text \<open>
  The value that \<^verbatim>\<open>compareGroup$\<close> emits for given inputs (it never throws there, see
  \<open>compareGroup_after_global\<close>).
\<close>

definition compareGroup_value ::
  "('row, 'v, 'n, 'r) deps \<Rightarrow> (main_field, 'v ifilter) input \<Rightarrow> ('row, 'n) compareGroup_out" where
  "compareGroup_value cfg inp =
     (case compareGroup_stage cfg (global_stage cfg inp) of
        Inl e \<Rightarrow> \<lparr>c_data = [], c_stats = None\<rparr>
      | Inr r \<Rightarrow> r)"

text \<open>The published fields are those that the stages compute from the inputs \<open>inp\<close>.\<close>

definition reflects ::
  "('row, 'v, 'n, 'r) deps \<Rightarrow> (main_field, 'v ifilter) input \<Rightarrow> ('row, 'v, 'n, 'r) runtime \<Rightarrow> bool" where
  "reflects cfg inp s =
     (let g = global_stage cfg inp; m = mainGroup_stage cfg g; c = compareGroup_value cfg inp
      in globalStats s = g_globalStats g \<and>
         selection s = m_data m \<and> selectionStats s = m_stats m \<and>
         generalAnalyses s = generalAnalyses_stage cfg m \<and>
         diffGroup s = c_data c \<and> diffStats s = c_stats c \<and>
         comparisonAnalyses s = comparisonAnalyses_stage cfg m c g \<and>
         latest_mainGroup s = Some m \<and> latest_compareGroup s = Some c \<and> latest_global s = Some g)"

text \<open>No chain holds a value for the trailing edge: every recomputation wave has completed.\<close>

definition settled :: "('row, 'v, 'n, 'r) runtime \<Rightarrow> bool" where
  "settled s =
     list_all (\<lambda>c. case throttle s c of Closed \<Rightarrow> True | Idle \<Rightarrow> True | Throttled r p \<Rightarrow> p = None)
       all_chains"

text \<open>
  The chains of a store that has not been destroyed move together: they hold the same
  throttle state, and either the published fields are those of the current inputs or the
  current inputs wait for the trailing edge.
\<close>

definition coherent :: "('row, 'v, 'n, 'r) deps \<Rightarrow> ('row, 'v, 'n, 'r) runtime \<Rightarrow> bool" where
  "coherent cfg s =
     (throttle s = (\<lambda>c. throttle s GlobalSub) \<and>
      (case throttle s GlobalSub of
         Closed \<Rightarrow> False
       | Idle \<Rightarrow> reflects cfg (inputs s) s
       | Throttled r p \<Rightarrow>
           (case p of None \<Rightarrow> reflects cfg (inputs s) s | Some v \<Rightarrow> v = inputs s)))"

text \<open>The invariant on the three statistics.\<close>

definition stats_null_invariant :: "('row, 'v, 'n, 'r, 'x) store_scheme \<Rightarrow> bool" where
  "stats_null_invariant s =
     ((if mainField s = None
       then globalStats s = None \<and> selectionStats s = None \<and> diffStats s = None else True) \<and>
      (if mainFieldFilters s = [] then selectionStats s = None else True) \<and>
      (if comparisonFilters s = [] then diffStats s = None else True))"

text \<open>An exported filter carries the name and semantic type of the first field with its id.\<close>

definition annotated :: "field_meta list \<Rightarrow> 'v ifilter exported \<Rightarrow> bool" where
  "annotated metas e =
     (case find (\<lambda>m. fid m = fid (spread e)) metas of
        None \<Rightarrow> False
      | Some m \<Rightarrow> export_name e = name m \<and> export_semanticType e = semanticType m)"

section \<open>The imported functions, as the specification describes them\<close>

text \<open>
  A row maps field ids to scalars: a number, a string, or nothing. A field that a row
  does not mention reads as \<open>Null\<close>.
\<close>

datatype cell = Num rat | Str string | Null

type_synonym row = "(string \<times> cell) list"

definition cell_of :: "row \<Rightarrow> string \<Rightarrow> cell" where
  "cell_of r k = (case map_of r k of None \<Rightarrow> Null | Some v \<Rightarrow> v)"

text \<open>
  Modelled from the spec: \<^verbatim>\<open>applyDividers\<close> of \<^verbatim>\<open>utils/stats\<close> (not among the sources), from
  section 4.1: the rows that satisfy all filters and the rows that fail one, in the order
  of the input; a range is inclusive and fails on a missing or non-numeric value; a value
  set matches a missing value only when it lists it.
\<close>

definition passes :: "cell ifilter \<Rightarrow> row \<Rightarrow> bool" where
  "passes f r =
     (case test f of
        OneOf vs \<Rightarrow> cell_of r (fid f) \<in> set vs
      | Range lo hi \<Rightarrow>
          (case cell_of r (fid f) of
             Num x \<Rightarrow>
               (case lo of
                  Num l \<Rightarrow> (case hi of Num h \<Rightarrow> l \<le> x \<and> x \<le> h | Str t \<Rightarrow> False | Null \<Rightarrow> False)
                | Str t \<Rightarrow> False
                | Null \<Rightarrow> False)
           | Str t \<Rightarrow> False
           | Null \<Rightarrow> False))"

definition applyDividers_spec :: "row list \<Rightarrow> cell ifilter list \<Rightarrow> row list \<times> row list" where
  "applyDividers_spec rows filters = partition (\<lambda>r. list_all (\<lambda>f. passes f r) filters) rows"

text \<open>
  Modelled from the spec: \<^verbatim>\<open>statDivision\<close> of \<^verbatim>\<open>utils/stats\<close> (not among the sources), from
  section 4.2 and the examples of section 8: the aggregates of the target field over the
  subset; sum and mean ignore what is not a number, count counts the values that are not
  missing, and the mean of no numbers is 0. Numbers are rationals here.
\<close>

fun numbers_of :: "row list \<Rightarrow> string \<Rightarrow> rat list" where
  "numbers_of [] k = []"
| "numbers_of (r # rs) k =
     (case cell_of r k of Num x \<Rightarrow> x # numbers_of rs k | Str t \<Rightarrow> numbers_of rs k | Null \<Rightarrow> numbers_of rs k)"

definition statDivision_spec ::
  "row list \<Rightarrow> row list \<Rightarrow> field_meta list \<Rightarrow> string \<Rightarrow> aggregator \<Rightarrow> rat" where
  "statDivision_spec full part metas target agg =
     (let xs = numbers_of part target in
      case agg of
        Mean \<Rightarrow> if xs = [] then 0 else sum_list xs / of_nat (length xs)
      | Sum \<Rightarrow> sum_list xs
      | Count \<Rightarrow> of_nat (length (filter (\<lambda>r. cell_of r target \<noteq> Null) part)))"

text \<open>
  Modelled from the spec: \<^verbatim>\<open>resolveCompareTarget\<close> of \<^verbatim>\<open>components/controlPanel\<close> (not among
  the sources), from sections 3, 6 and 7: the metadata of the field that the main field
  targets, or null when \<open>fields\<close> has none with that id. The target may be another field
  than the main field (the specification's example is a rate and its numerator); \<open>table\<close>
  lists the main-field ids that target another field, and is empty when none does.
\<close>

definition resolveCompareTarget_spec ::
  "(string \<times> string) list \<Rightarrow> main_field \<Rightarrow> field_meta list \<Rightarrow> compare_target option" where
  "resolveCompareTarget_spec table mf metas =
     (case find (\<lambda>m. fid m = (case map_of table (fid mf) of None \<Rightarrow> fid mf | Some t \<Rightarrow> t)) metas of
        None \<Rightarrow> None
      | Some m \<Rightarrow> Some \<lparr>field = m\<rparr>)"

text \<open>
  Modelled from the spec: \<^verbatim>\<open>analyzeContributions\<close> and \<^verbatim>\<open>analyzeComparisons\<close> of
  \<^verbatim>\<open>utils/top-drivers\<close> (not among the sources), from sections 4.3 and 4.4, as far as the
  specification fixes them: no result for an empty population, and otherwise the ids of the
  candidate fields, which are the fields other than the main field. The buckets and
  scores, whose binning the specification leaves open, are not modelled.
\<close>

definition analyzeContributions_spec ::
  "row list \<Rightarrow> field_meta list \<Rightarrow> main_field \<Rightarrow> rat \<Rightarrow> string list" where
  "analyzeContributions_spec population metas mf baseline =
     (if population = [] then [] else map fid (filter (\<lambda>m. fid m \<noteq> fid mf) metas))"

definition analyzeComparisons_spec ::
  "row list \<Rightarrow> row list \<Rightarrow> field_meta list \<Rightarrow> main_field \<Rightarrow> string list" where
  "analyzeComparisons_spec population other metas mf =
     (if population = [] then [] else map fid (filter (\<lambda>m. fid m \<noteq> fid mf) metas))"

definition spec_deps ::
  "(string \<times> string) list \<Rightarrow> row list \<Rightarrow> field_meta list \<Rightarrow> (row, cell, rat, string) deps" where
  "spec_deps table rows metas =
     \<lparr>data = rows, fieldMetas = metas,
      resolveCompareTarget = resolveCompareTarget_spec table,
      applyDividers = applyDividers_spec,
      statDivision = statDivision_spec,
      analyzeContributions = analyzeContributions_spec,
      analyzeComparisons = analyzeComparisons_spec\<rparr>"

text \<open>A dataset of four rows over two numeric fields, and inputs over it.\<close>

definition example_rows :: "row list" where
  "example_rows =
     [[(''a'', Num 10), (''b'', Num 1)], [(''a'', Num 20), (''b'', Num 2)],
      [(''a'', Num 30), (''b'', Num 3)], [(''a'', Num 40), (''b'', Num 4)]]"

definition example_fields :: "field_meta list" where
  "example_fields =
     [\<lparr>fid = ''a'', name = ''Amount'', semanticType = Quantitative\<rparr>,
      \<lparr>fid = ''b'', name = ''Batch'', semanticType = Quantitative\<rparr>]"

definition example_deps :: "(row, cell, rat, string) deps" where
  "example_deps = spec_deps [] example_rows example_fields"

definition example_main :: main_field where
  "example_main = \<lparr>fid = ''a'', aggregator = Sum\<rparr>"

definition low_filter :: "cell ifilter" where
  "low_filter = \<lparr>fid = ''a'', test = Range (Num 0) (Num 25)\<rparr>"

definition high_filter :: "cell ifilter" where
  "high_filter = \<lparr>fid = ''a'', test = Range (Num 25) (Num 40)\<rparr>"

definition unknown_filter :: "cell ifilter" where
  "unknown_filter = \<lparr>fid = ''z'', test = OneOf [Str ''x'']\<rparr>"

definition example_input :: "(main_field, cell ifilter) input" where
  "example_input =
     \<lparr>mainField = Some example_main, mainFieldFilters = [low_filter],
      comparisonFilters = [high_filter]\<rparr>"

section \<open>Notions for the statements\<close>

text \<open>The published fields of a store.\<close>

definition published ::
  "('row, 'v, 'n, 'r, 'x) store_scheme \<Rightarrow>
     'row list \<times> 'row list \<times> 'n field_stats option \<times> 'n field_stats option \<times>
     'n field_stats option \<times> 'r list \<times> 'r list" where
  "published s =
     (selection s, diffGroup s, globalStats s, selectionStats s, diffStats s,
      generalAnalyses s, comparisonAnalyses s)"

text \<open>Both published row lists hold rows of the dataset only.\<close>

definition within_data :: "('row, 'v, 'n, 'r) deps \<Rightarrow> ('row, 'v, 'n, 'r, 'x) store_scheme \<Rightarrow> bool" where
  "within_data cfg s = (set (selection s) \<subseteq> set (data cfg) \<and> set (diffGroup s) \<subseteq> set (data cfg))"

text \<open>
  The same dataset, with a main field \<open>a\<close> whose target is the field \<open>b\<close>.
\<close>

definition target_deps :: "(row, cell, rat, string) deps" where
  "target_deps = spec_deps [(''a'', ''b'')] example_rows example_fields"

text \<open>The store over \<open>target_deps\<close> after the three inputs are set and the wave has run.\<close>

definition target_run :: "(row, cell, rat, string) runtime" where
  "target_run =
     run target_deps
       ([SetMainField (Some example_main), SetMainFieldFilters [low_filter],
         SetComparisonFilters [high_filter]] @ replicate throttle_ms Tick)
       (construct target_deps)"

text \<open>
  A burst: calls of \<^verbatim>\<open>setMainFieldFilters\<close> and milliseconds passing between them, and the
  time a burst takes.
\<close>

definition burst_event :: "'v event \<Rightarrow> bool" where
  "burst_event ev =
     (case ev of
        SetMainField v \<Rightarrow> False
      | SetMainFieldFilters v \<Rightarrow> True
      | SetComparisonFilters v \<Rightarrow> False
      | Destroy \<Rightarrow> False
      | Tick \<Rightarrow> True)"

definition is_tick :: "'v event \<Rightarrow> bool" where
  "is_tick ev =
     (case ev of
        SetMainField v \<Rightarrow> False
      | SetMainFieldFilters v \<Rightarrow> False
      | SetComparisonFilters v \<Rightarrow> False
      | Destroy \<Rightarrow> False
      | Tick \<Rightarrow> True)"

definition duration :: "'v event list \<Rightarrow> nat" where
  "duration evs = length (filter is_tick evs)"

text \<open>
  How many waves chains in the throttle state \<open>T\<close> can still run for a burst that takes
  \<open>w\<close> more milliseconds.
\<close>

definition waves_bound :: "'i throttle \<Rightarrow> nat \<Rightarrow> nat" where
  "waves_bound T w =
     (case T of Closed \<Rightarrow> 0 | Idle \<Rightarrow> 2 | Throttled r p \<Rightarrow> if r \<le> w then 2 else 1)"

text \<open>The analyzers are called at most \<open>b\<close> and \<open>3 * b\<close> times during the events \<open>evs\<close>.\<close>

definition calls_within ::
  "('row, 'v, 'n, 'r) deps \<Rightarrow> ('row, 'v, 'n, 'r) runtime \<Rightarrow> 'v event list \<Rightarrow> nat \<Rightarrow> bool" where
  "calls_within cfg s evs b =
     (contributions_calls (run cfg evs s) \<le> contributions_calls s + b \<and>
      comparisons_calls (run cfg evs s) \<le> comparisons_calls s + 3 * b)"

text \<open>Whether chains in the throttle state \<open>T\<close> owe a trailing wave.\<close>

definition trailing_due :: "'i throttle \<Rightarrow> nat" where
  "trailing_due T =
     (case T of Closed \<Rightarrow> 0 | Idle \<Rightarrow> 0 | Throttled r p \<Rightarrow> (case p of None \<Rightarrow> 0 | Some v \<Rightarrow> 1))"

text \<open>
  A store over the example dataset whose main field and comparison filter are set and whose
  throttles are idle, and a burst of ten calls, five milliseconds apart.
\<close>

definition quiet_store :: "(row, cell, rat, string) runtime" where
  "quiet_store =
     run example_deps
       ([SetMainField (Some example_main), SetComparisonFilters [high_filter]] @
        replicate throttle_ms Tick @ replicate throttle_ms Tick)
       (construct example_deps)"

definition ten_calls :: "cell event list" where
  "ten_calls =
     [SetMainFieldFilters [low_filter]] @ replicate 5 Tick @
     [SetMainFieldFilters [low_filter]] @ replicate 5 Tick @
     [SetMainFieldFilters [low_filter]] @ replicate 5 Tick @
     [SetMainFieldFilters [low_filter]] @ replicate 5 Tick @
     [SetMainFieldFilters [low_filter]] @ replicate 5 Tick @
     [SetMainFieldFilters [low_filter]] @ replicate 5 Tick @
     [SetMainFieldFilters [low_filter]] @ replicate 5 Tick @
     [SetMainFieldFilters [low_filter]] @ replicate 5 Tick @
     [SetMainFieldFilters [low_filter]] @ replicate 5 Tick @
     [SetMainFieldFilters [low_filter]]"

text \<open>The example store while a wave for a cleared main field waits for the trailing edge.\<close>

definition stale_store :: "(row, cell, rat, string) runtime" where
  "stale_store =
     run example_deps
       ([SetMainField (Some example_main)] @ replicate throttle_ms Tick @ [SetMainField None])
       (construct example_deps)"

text \<open>
  Events on the example store: the main field is set and its wave runs; a call of
  \<^verbatim>\<open>setMainFieldFilters\<close> with a fresh array holding the filter on \<open>a\<close>, and its wave.
\<close>

definition main_history :: "cell event list" where
  "main_history = SetMainField (Some example_main) # replicate throttle_ms Tick"

definition filter_call :: "cell event list" where
  "filter_call = SetMainFieldFilters [low_filter] # replicate throttle_ms Tick"

section \<open>The chains, one by one\<close>

lemma compareGroup_after_global:
  "compareGroup_stage cfg (global_stage cfg inp) = Inr (compareGroup_value cfg inp)"
  by (simp add: compareGroup_value_def compareGroup_stage_def global_stage_def Let_def split: option.splits)

lemma chain_emit_GlobalSub:
  "chain_emit cfg GlobalSub inp s = s\<lparr>globalStats := g_globalStats (global_stage cfg inp)\<rparr>"
  by (simp add: chain_emit_def updateGlobalStats_def Let_def)

lemma chain_emit_MainGroupSub:
  "chain_emit cfg MainGroupSub inp s =
     s\<lparr>selection := m_data (mainGroup_stage cfg (global_stage cfg inp)),
       selectionStats := m_stats (mainGroup_stage cfg (global_stage cfg inp))\<rparr>"
  by (simp add: chain_emit_def updateMainGroupStats_def Let_def)

lemma chain_emit_GeneralSub:
  "chain_emit cfg GeneralSub inp s =
     s\<lparr>generalAnalyses := generalAnalyses_stage cfg (mainGroup_stage cfg (global_stage cfg inp)),
       contributions_calls := contributions_calls s +
          generalAnalyses_calls (mainGroup_stage cfg (global_stage cfg inp))\<rparr>"
  by (simp add: chain_emit_def updateGeneralAnalyses_def Let_def)

lemma chain_emit_CompareSub:
  "chain_emit cfg CompareSub inp s =
     s\<lparr>diffGroup := c_data (compareGroup_value cfg inp),
       diffStats := c_stats (compareGroup_value cfg inp)\<rparr>"
  by (simp add: chain_emit_def updateComparisonGroupStats_def Let_def compareGroup_after_global)

lemma chain_emit_BaseMain:
  "chain_emit cfg BaseMain inp s =
     base_emit cfg (s\<lparr>latest_mainGroup := Some (mainGroup_stage cfg (global_stage cfg inp))\<rparr>)"
  by (simp add: chain_emit_def Let_def)

lemma chain_emit_BaseCompare:
  "chain_emit cfg BaseCompare inp s =
     base_emit cfg (s\<lparr>latest_compareGroup := Some (compareGroup_value cfg inp)\<rparr>)"
  by (simp add: chain_emit_def Let_def compareGroup_after_global)

lemma chain_emit_BaseGlobal:
  "chain_emit cfg BaseGlobal inp s =
     base_emit cfg (s\<lparr>latest_global := Some (global_stage cfg inp)\<rparr>)"
  by (simp add: chain_emit_def Let_def)

lemmas chain_emit_simps = chain_emit_GlobalSub chain_emit_MainGroupSub chain_emit_GeneralSub
  chain_emit_CompareSub chain_emit_BaseMain chain_emit_BaseCompare chain_emit_BaseGlobal

lemma throttle_base_emit: "throttle (base_emit cfg s) = throttle s"
  by (simp add: base_emit_def updateComparisonAnalyses_def split: option.splits)

lemma inputs_base_emit: "inputs (base_emit cfg s) = inputs s"
  by (simp add: base_emit_def updateComparisonAnalyses_def inputs_def split: option.splits)

lemma base_emit_throttle_update:
  "base_emit cfg (s\<lparr>throttle := f\<rparr>) = (base_emit cfg s)\<lparr>throttle := f\<rparr>"
  by (simp add: base_emit_def updateComparisonAnalyses_def split: option.splits)

lemma throttle_chain_emit: "throttle (chain_emit cfg c inp s) = throttle s"
  by (cases c) (simp_all add: chain_emit_simps throttle_base_emit)

lemma inputs_chain_emit: "inputs (chain_emit cfg c inp s) = inputs s"
  by (cases c) (simp_all add: chain_emit_simps inputs_base_emit, simp_all add: inputs_def)

lemma chain_emit_throttle_update:
  "chain_emit cfg c inp (s\<lparr>throttle := f\<rparr>) = (chain_emit cfg c inp s)\<lparr>throttle := f\<rparr>"
  by (cases c)
    (simp_all add: chain_emit_simps base_emit_def updateComparisonAnalyses_def split: option.splits)

lemma wave_throttle_update:
  "fold (\<lambda>c. chain_emit cfg c inp) cs (s\<lparr>throttle := f\<rparr>) =
     (fold (\<lambda>c. chain_emit cfg c inp) cs s)\<lparr>throttle := f\<rparr>"
  by (induction cs arbitrary: s) (simp_all add: chain_emit_throttle_update)

lemma throttle_fold_emit: "throttle (fold (\<lambda>c. chain_emit cfg c inp) cs s) = throttle s"
  by (induction cs arbitrary: s) (simp_all add: throttle_chain_emit)

lemma fold_next_idle:
  "distinct cs \<Longrightarrow> \<forall>c\<in>set cs. throttle s c = Idle \<Longrightarrow>
   fold (chain_next cfg inp) cs s =
     (fold (\<lambda>c. chain_emit cfg c inp) cs s)
       \<lparr>throttle := (\<lambda>c. if c \<in> set cs then Throttled throttle_ms None else throttle s c)\<rparr>"
proof (induction cs arbitrary: s)
  case Nil
  then show ?case by simp
next
  case (Cons c cs)
  let ?s1 = "chain_next cfg inp c s"
  have s1: "?s1 = (chain_emit cfg c inp s)\<lparr>throttle := (throttle s)(c := Throttled throttle_ms None)\<rparr>"
    using Cons.prems by (simp add: chain_next_def start_throttle_def throttle_chain_emit)
  have "\<forall>c'\<in>set cs. throttle ?s1 c' = Idle"
    using Cons.prems by (auto simp: s1)
  with Cons have "fold (chain_next cfg inp) cs ?s1 =
     (fold (\<lambda>c. chain_emit cfg c inp) cs ?s1)
       \<lparr>throttle := (\<lambda>c'. if c' \<in> set cs then Throttled throttle_ms None else throttle ?s1 c')\<rparr>"
    by simp
  then show ?case
    by (simp add: s1 wave_throttle_update fun_eq_iff cong: if_cong)
qed

lemma set_all_chains: "set all_chains = UNIV"
proof -
  have "c \<in> set all_chains" for c by (cases c) (simp_all add: all_chains_def)
  then show ?thesis by auto
qed

lemma distinct_all_chains: "distinct all_chains"
  by (simp add: all_chains_def)

lemma throttle_upd_same:
  "throttle s c = T \<Longrightarrow> s\<lparr>throttle := (throttle s)(c := T)\<rparr> = s"
  by (simp add: fun_upd_idem)

lemma fold_throttle_only:
  fixes s :: "('row, 'v, 'n, 'r) runtime"
  assumes f: "\<And>(s :: ('row, 'v, 'n, 'r) runtime) c.
                throttle s c = T \<Longrightarrow> f c s = s\<lparr>throttle := (throttle s)(c := T')\<rparr>"
  shows "distinct cs \<Longrightarrow> \<forall>c\<in>set cs. throttle s c = T \<Longrightarrow>
         fold f cs s = s\<lparr>throttle := (\<lambda>c. if c \<in> set cs then T' else throttle s c)\<rparr>"
proof (induction cs arbitrary: s)
  case Nil
  then show ?case by simp
next
  case (Cons c cs)
  let ?s1 = "f c s"
  have s1: "?s1 = s\<lparr>throttle := (throttle s)(c := T')\<rparr>"
    using Cons.prems f by simp
  have "\<forall>c'\<in>set cs. throttle ?s1 c' = T"
    using Cons.prems by (auto simp: s1)
  with Cons have "fold f cs ?s1 =
      ?s1\<lparr>throttle := (\<lambda>c'. if c' \<in> set cs then T' else throttle ?s1 c')\<rparr>"
    by simp
  then show ?case
    by (simp add: s1 fun_eq_iff cong: if_cong)
qed

lemma fold_throttle_emit:
  fixes s :: "('row, 'v, 'n, 'r) runtime"
  assumes f: "\<And>(s :: ('row, 'v, 'n, 'r) runtime) c.
                throttle s c = T \<Longrightarrow>
                f c s = (chain_emit cfg c v s)\<lparr>throttle := (throttle s)(c := T')\<rparr>"
  shows "distinct cs \<Longrightarrow> \<forall>c\<in>set cs. throttle s c = T \<Longrightarrow>
         fold f cs s =
           (fold (\<lambda>c. chain_emit cfg c v) cs s)
             \<lparr>throttle := (\<lambda>c. if c \<in> set cs then T' else throttle s c)\<rparr>"
proof (induction cs arbitrary: s)
  case Nil
  then show ?case by simp
next
  case (Cons c cs)
  let ?s1 = "f c s"
  have s1: "?s1 = (chain_emit cfg c v s)\<lparr>throttle := (throttle s)(c := T')\<rparr>"
    using Cons.prems f by simp
  have "\<forall>c'\<in>set cs. throttle ?s1 c' = T"
    using Cons.prems by (auto simp: s1)
  with Cons have "fold f cs ?s1 =
      (fold (\<lambda>c. chain_emit cfg c v) cs ?s1)
        \<lparr>throttle := (\<lambda>c'. if c' \<in> set cs then T' else throttle ?s1 c')\<rparr>"
    by simp
  then show ?case
    by (simp add: s1 wave_throttle_update fun_eq_iff cong: if_cong)
qed

lemma notify_idle:
  assumes "throttle s = (\<lambda>c. Idle)"
  shows "notify cfg s = (wave cfg (inputs s) s)\<lparr>throttle := (\<lambda>c. Throttled throttle_ms None)\<rparr>"
proof -
  have "fold (chain_next cfg (inputs s)) all_chains s =
          (fold (\<lambda>c. chain_emit cfg c (inputs s)) all_chains s)
            \<lparr>throttle := (\<lambda>c. if c \<in> set all_chains then Throttled throttle_ms None else throttle s c)\<rparr>"
    by (rule fold_throttle_emit [where T = Idle])
       (simp_all add: chain_next_def start_throttle_def throttle_chain_emit distinct_all_chains assms)
  then show ?thesis
    by (simp add: notify_def wave_def set_all_chains)
qed

lemma notify_throttled:
  assumes "throttle s = (\<lambda>c. Throttled r p)"
  shows "notify cfg s = s\<lparr>throttle := (\<lambda>c. Throttled r (Some (inputs s)))\<rparr>"
proof -
  have "fold (chain_next cfg (inputs s)) all_chains s =
          s\<lparr>throttle := (\<lambda>c. if c \<in> set all_chains then Throttled r (Some (inputs s)) else throttle s c)\<rparr>"
    by (rule fold_throttle_only [where T = "Throttled r p"])
       (simp_all add: chain_next_def distinct_all_chains assms)
  then show ?thesis
    by (simp add: notify_def set_all_chains)
qed

lemma notify_closed:
  assumes "throttle s = (\<lambda>c. Closed)"
  shows "notify cfg s = s"
proof -
  have "fold (chain_next cfg (inputs s)) all_chains s =
          s\<lparr>throttle := (\<lambda>c. if c \<in> set all_chains then Closed else throttle s c)\<rparr>"
    by (rule fold_throttle_only [where T = Closed])
       (simp_all add: chain_next_def distinct_all_chains assms throttle_upd_same)
  then show ?thesis
    by (simp add: notify_def set_all_chains assms [symmetric])
qed

lemma tick_closed:
  assumes "throttle s = (\<lambda>c. Closed)"
  shows "tick cfg s = s"
proof -
  have "fold (chain_tick cfg) all_chains s =
          s\<lparr>throttle := (\<lambda>c. if c \<in> set all_chains then Closed else throttle s c)\<rparr>"
    by (rule fold_throttle_only [where T = Closed])
       (simp_all add: chain_tick_def distinct_all_chains assms throttle_upd_same)
  then show ?thesis
    by (simp add: tick_def set_all_chains assms [symmetric])
qed

lemma tick_idle:
  assumes "throttle s = (\<lambda>c. Idle)"
  shows "tick cfg s = s"
proof -
  have "fold (chain_tick cfg) all_chains s =
          s\<lparr>throttle := (\<lambda>c. if c \<in> set all_chains then Idle else throttle s c)\<rparr>"
    by (rule fold_throttle_only [where T = Idle])
       (simp_all add: chain_tick_def distinct_all_chains assms throttle_upd_same)
  then show ?thesis
    by (simp add: tick_def set_all_chains assms [symmetric])
qed

lemma tick_running:
  assumes "throttle s = (\<lambda>c. Throttled r p)" and "1 < r"
  shows "tick cfg s = s\<lparr>throttle := (\<lambda>c. Throttled (r - 1) p)\<rparr>"
proof -
  have "fold (chain_tick cfg) all_chains s =
          s\<lparr>throttle := (\<lambda>c. if c \<in> set all_chains then Throttled (r - 1) p else throttle s c)\<rparr>"
    by (rule fold_throttle_only [where T = "Throttled r p"])
       (use assms in \<open>simp_all add: chain_tick_def distinct_all_chains\<close>)
  then show ?thesis
    by (simp add: tick_def set_all_chains)
qed

lemma tick_ends_idle:
  assumes "throttle s = (\<lambda>c. Throttled r None)" and "r \<le> 1"
  shows "tick cfg s = s\<lparr>throttle := (\<lambda>c. Idle)\<rparr>"
proof -
  have "fold (chain_tick cfg) all_chains s =
          s\<lparr>throttle := (\<lambda>c. if c \<in> set all_chains then Idle else throttle s c)\<rparr>"
    by (rule fold_throttle_only [where T = "Throttled r None"])
       (use assms in \<open>simp_all add: chain_tick_def distinct_all_chains\<close>)
  then show ?thesis
    by (simp add: tick_def set_all_chains)
qed

lemma tick_ends_trailing:
  assumes "throttle s = (\<lambda>c. Throttled r (Some v))" and "r \<le> 1"
  shows "tick cfg s = (wave cfg v s)\<lparr>throttle := (\<lambda>c. Throttled throttle_ms None)\<rparr>"
proof -
  have "fold (chain_tick cfg) all_chains s =
          (fold (\<lambda>c. chain_emit cfg c v) all_chains s)
            \<lparr>throttle := (\<lambda>c. if c \<in> set all_chains then Throttled throttle_ms None else throttle s c)\<rparr>"
    by (rule fold_throttle_emit [where T = "Throttled r (Some v)"])
       (use assms in \<open>simp_all add: chain_tick_def start_throttle_def throttle_chain_emit
          chain_emit_throttle_update distinct_all_chains\<close>)
  then show ?thesis
    by (simp add: tick_def wave_def set_all_chains)
qed

lemma inputs_wave: "inputs (wave cfg inp s) = inputs s"
proof -
  have "inputs (fold (\<lambda>c. chain_emit cfg c inp) cs s) = inputs s" for cs
    by (induction cs arbitrary: s) (simp_all add: inputs_chain_emit)
  then show ?thesis by (simp add: wave_def)
qed

lemma throttle_wave: "throttle (wave cfg inp s) = throttle s"
  by (simp add: wave_def throttle_fold_emit)

lemma wave_unfold:
  "wave cfg inp s =
     chain_emit cfg BaseGlobal inp (chain_emit cfg BaseCompare inp (chain_emit cfg BaseMain inp
       (chain_emit cfg CompareSub inp (chain_emit cfg GeneralSub inp
         (chain_emit cfg MainGroupSub inp (chain_emit cfg GlobalSub inp s))))))"
  by (simp add: wave_def all_chains_def)

lemma wave_reflects: "reflects cfg inp (wave cfg inp s)"
  by (simp add: wave_unfold chain_emit_simps base_emit_def updateComparisonAnalyses_def reflects_def
      Let_def split: option.splits)

lemma wave_contributions_calls:
  "contributions_calls (wave cfg inp s) =
     contributions_calls s + generalAnalyses_calls (mainGroup_stage cfg (global_stage cfg inp))"
  by (simp add: wave_unfold chain_emit_simps base_emit_def updateComparisonAnalyses_def
      split: option.splits)

lemma comparisons_calls_base_emit:
  "comparisons_calls (base_emit cfg s) =
     comparisons_calls s +
       (case latest_mainGroup s of None \<Rightarrow> 0 | Some m \<Rightarrow>
          (case latest_compareGroup s of None \<Rightarrow> 0 | Some c \<Rightarrow>
             (case latest_global s of None \<Rightarrow> 0 | Some g \<Rightarrow> comparisonAnalyses_calls g)))"
  by (simp add: base_emit_def updateComparisonAnalyses_def split: option.splits)

lemma comparisonAnalyses_calls_le: "comparisonAnalyses_calls g \<le> 1"
  by (simp add: comparisonAnalyses_calls_def split: option.splits)

lemma generalAnalyses_calls_le: "generalAnalyses_calls m \<le> 1"
  by (simp add: generalAnalyses_calls_def split: option.splits)

lemma wave_contributions_calls_le:
  "contributions_calls (wave cfg inp s) \<le> contributions_calls s + 1"
  using generalAnalyses_calls_le [of "mainGroup_stage cfg (global_stage cfg inp)"]
  by (simp add: wave_contributions_calls)

lemma base_emit_calls_le: "comparisons_calls (base_emit cfg s) \<le> comparisons_calls s + 1"
  using comparisonAnalyses_calls_le
  by (auto simp: comparisons_calls_base_emit split: option.splits)

lemma wave_comparisons_calls_le:
  "comparisons_calls (wave cfg inp s) \<le> comparisons_calls s + 3"
proof -
  let ?s4 = "chain_emit cfg CompareSub inp (chain_emit cfg GeneralSub inp
         (chain_emit cfg MainGroupSub inp (chain_emit cfg GlobalSub inp s)))"
  let ?s5 = "chain_emit cfg BaseMain inp ?s4"
  let ?s6 = "chain_emit cfg BaseCompare inp ?s5"
  let ?s7 = "chain_emit cfg BaseGlobal inp ?s6"
  have 4: "comparisons_calls ?s4 = comparisons_calls s"
    by (simp add: chain_emit_simps)
  have 5: "comparisons_calls ?s5 \<le> comparisons_calls ?s4 + 1"
    unfolding chain_emit_BaseMain [of cfg inp ?s4]
    by (rule order_trans [OF base_emit_calls_le]) simp
  have 6: "comparisons_calls ?s6 \<le> comparisons_calls ?s5 + 1"
    unfolding chain_emit_BaseCompare [of cfg inp ?s5]
    by (rule order_trans [OF base_emit_calls_le]) simp
  have 7: "comparisons_calls ?s7 \<le> comparisons_calls ?s6 + 1"
    unfolding chain_emit_BaseGlobal [of cfg inp ?s6]
    by (rule order_trans [OF base_emit_calls_le]) simp
  show ?thesis
    unfolding wave_unfold using 4 5 6 7 by linarith
qed

lemma reflects_throttle_update [simp]:
  "reflects cfg inp (s\<lparr>throttle := f\<rparr>) = reflects cfg inp s"
  by (simp add: reflects_def)

lemma inputs_throttle_update [simp]: "inputs (s\<lparr>throttle := f\<rparr>) = inputs s"
  by (simp add: inputs_def)

lemma coherentI:
  "throttle s = (\<lambda>c. T) \<Longrightarrow>
   (case T of Closed \<Rightarrow> False | Idle \<Rightarrow> reflects cfg (inputs s) s
    | Throttled r p \<Rightarrow> (case p of None \<Rightarrow> reflects cfg (inputs s) s | Some v \<Rightarrow> v = inputs s)) \<Longrightarrow>
   coherent cfg s"
  by (simp add: coherent_def)

lemma coherent_notify:
  assumes "throttle s = (\<lambda>c. T)" and "T \<noteq> Closed"
  shows "coherent cfg (notify cfg s)"
proof (cases T)
  case Closed
  with assms show ?thesis by simp
next
  case Idle
  with assms have "notify cfg s = (wave cfg (inputs s) s)\<lparr>throttle := (\<lambda>c. Throttled throttle_ms None)\<rparr>"
    by (simp add: notify_idle)
  moreover have "reflects cfg (inputs s) (wave cfg (inputs s) s)"
    by (rule wave_reflects)
  ultimately show ?thesis
    by (simp add: coherent_def inputs_wave)
next
  case (Throttled r p)
  with assms have "notify cfg s = s\<lparr>throttle := (\<lambda>c. Throttled r (Some (inputs s)))\<rparr>"
    by (simp add: notify_throttled)
  then show ?thesis
    by (simp add: coherent_def)
qed

lemma coherent_tick:
  assumes "coherent cfg s"
  shows "coherent cfg (tick cfg s)"
proof -
  let ?T = "throttle s GlobalSub"
  from assms have sync: "throttle s = (\<lambda>c. ?T)"
    by (simp add: coherent_def)
  show ?thesis
  proof (cases ?T)
    case Closed
    with assms show ?thesis by (simp add: coherent_def)
  next
    case Idle
    with sync have "tick cfg s = s" by (simp add: tick_idle)
    with assms show ?thesis by simp
  next
    case (Throttled r p)
    with sync have t: "throttle s = (\<lambda>c. Throttled r p)" by simp
    show ?thesis
    proof (cases "1 < r")
      case True
      with t have "tick cfg s = s\<lparr>throttle := (\<lambda>c. Throttled (r - 1) p)\<rparr>"
        by (rule tick_running)
      with assms Throttled show ?thesis
        by (simp add: coherent_def)
    next
      case False
      then have r: "r \<le> 1" by simp
      show ?thesis
      proof (cases p)
        case None
        with t r have "tick cfg s = s\<lparr>throttle := (\<lambda>c. Idle)\<rparr>"
          by (simp add: tick_ends_idle)
        with assms Throttled None show ?thesis
          by (simp add: coherent_def)
      next
        case (Some v)
        with t r have "tick cfg s = (wave cfg v s)\<lparr>throttle := (\<lambda>c. Throttled throttle_ms None)\<rparr>"
          by (simp add: tick_ends_trailing)
        moreover from assms Throttled Some have "v = inputs s"
          by (simp add: coherent_def)
        moreover have "reflects cfg v (wave cfg v s)"
          by (rule wave_reflects)
        ultimately show ?thesis
          by (simp add: coherent_def inputs_wave)
      qed
    qed
  qed
qed

lemma coherent_step:
  assumes "coherent cfg s" and "ev \<noteq> Destroy"
  shows "coherent cfg (step cfg ev s)"
proof -
  from assms have sync: "throttle s = (\<lambda>c. throttle s GlobalSub)" and alive: "throttle s GlobalSub \<noteq> Closed"
    by (auto simp: coherent_def)
  show ?thesis
  proof (cases ev)
    case (SetMainField v)
    show ?thesis
    proof (cases "v = None \<and> mainField s = None")
      case True
      with assms SetMainField show ?thesis by (simp add: step_def setMainField_def)
    next
      case False
      have "coherent cfg (notify cfg (s\<lparr>mainField := v\<rparr>))"
        by (rule coherent_notify [where T = "throttle s GlobalSub"]) (use sync alive in simp_all)
      with False SetMainField show ?thesis by (auto simp: step_def setMainField_def)
    qed
  next
    case (SetMainFieldFilters v)
    have "coherent cfg (notify cfg (s\<lparr>mainFieldFilters := v\<rparr>))"
      by (rule coherent_notify [where T = "throttle s GlobalSub"]) (use sync alive in simp_all)
    with SetMainFieldFilters show ?thesis by (simp add: step_def setMainFieldFilters_def)
  next
    case (SetComparisonFilters v)
    have "coherent cfg (notify cfg (s\<lparr>comparisonFilters := v\<rparr>))"
      by (rule coherent_notify [where T = "throttle s GlobalSub"]) (use sync alive in simp_all)
    with SetComparisonFilters show ?thesis by (simp add: step_def setComparisonFilters_def)
  next
    case Destroy
    with assms show ?thesis by simp
  next
    case Tick
    with assms show ?thesis by (simp add: step_def coherent_tick)
  qed
qed

lemma coherent_construct: "coherent cfg (construct cfg)"
  unfolding construct_def
  by (rule coherent_notify [where T = Idle]) (simp_all add: initial_def)

lemma coherent_run:
  "coherent cfg s \<Longrightarrow> Destroy \<notin> set evs \<Longrightarrow> coherent cfg (run cfg evs s)"
proof (induction evs arbitrary: s)
  case Nil
  then show ?case by (simp add: run_def)
next
  case (Cons ev evs)
  from Cons.prems have "coherent cfg (step cfg ev s)"
    by (auto intro: coherent_step)
  with Cons have "coherent cfg (run cfg evs (step cfg ev s))"
    by simp
  then show ?case by (simp add: run_def)
qed

lemma settled_sync:
  "throttle s = (\<lambda>c. T) \<Longrightarrow>
   settled s = (case T of Closed \<Rightarrow> True | Idle \<Rightarrow> True | Throttled r p \<Rightarrow> p = None)"
  by (simp add: settled_def all_chains_def)

lemma coherent_settled_reflects:
  assumes "coherent cfg s" and "settled s"
  shows "reflects cfg (inputs s) s"
proof -
  from assms(1) have sync: "throttle s = (\<lambda>c. throttle s GlobalSub)"
    by (simp add: coherent_def)
  from assms(2) have "case throttle s GlobalSub of Closed \<Rightarrow> True | Idle \<Rightarrow> True | Throttled r p \<Rightarrow> p = None"
    using settled_sync [OF sync] by simp
  with assms(1) show ?thesis
    by (auto simp: coherent_def split: throttle.splits option.splits)
qed

lemma reflects_stats_null_invariant:
  "reflects cfg (inputs s) s \<Longrightarrow> stats_null_invariant s"
  by (auto simp: reflects_def stats_null_invariant_def Let_def inputs_def global_stage_def
      mainGroup_stage_def compareGroup_value_def compareGroup_stage_def split: option.splits)

section \<open>Properties of export\<close>

lemma exportFilters_loop_spread:
  "map spread (exportFilters_loop acc fs metas) =
     map spread acc @ filter (\<lambda>f. fid f \<in> set (map fid metas)) fs"
proof (induction fs arbitrary: acc)
  case Nil
  then show ?case by simp
next
  case (Cons f fs)
  show ?case
  proof (cases "find (\<lambda>m. fid m = fid f) metas")
    case None
    then have "fid f \<notin> set (map fid metas)"
      by (auto simp: find_None_iff)
    with None Cons show ?thesis by simp
  next
    case (Some m)
    then have "fid f \<in> set (map fid metas)"
      by (auto simp: find_Some_iff image_iff) (metis nth_mem)
    with Some Cons show ?thesis by simp
  qed
qed

lemma exportFilters_loop_annotated:
  "list_all (annotated metas) acc \<Longrightarrow> list_all (annotated metas) (exportFilters_loop acc fs metas)"
proof (induction fs arbitrary: acc)
  case Nil
  then show ?case by simp
next
  case (Cons f fs)
  then show ?case
    by (cases "find (\<lambda>m. fid m = fid f) metas") (simp_all add: annotated_def)
qed

text \<open>
  C5. The two filter lists of a snapshot hold exactly the current filters whose id is the
  id of some field, in their order, each with the name and the semantic type of the first
  field of that id; the others are left out, and \<open>export\<close> has no failing branch.
\<close>

theorem export_filters_exact:
  "map spread (mainFieldFilters (export_store cfg s)) =
     filter (\<lambda>f. fid f \<in> set (map fid (fieldMetas cfg))) (mainFieldFilters s) \<and>
   list_all (annotated (fieldMetas cfg)) (mainFieldFilters (export_store cfg s)) \<and>
   map spread (comparisonFilters (export_store cfg s)) =
     filter (\<lambda>f. fid f \<in> set (map fid (fieldMetas cfg))) (comparisonFilters s) \<and>
   list_all (annotated (fieldMetas cfg)) (comparisonFilters (export_store cfg s))"
  by (simp add: export_store_def Let_def exportFilters_def exportFilters_loop_spread
      exportFilters_loop_annotated)

text \<open>
  C10. The exported main field is non-null exactly when the main field is set and
  \<^verbatim>\<open>resolveCompareTarget\<close> resolves it; it is then the main field with the name and semantic
  type of the target, and null otherwise.
\<close>

theorem export_mainField_resolved:
  "(mainField (export_store cfg s) \<noteq> None) =
     (case mainField s of
        None \<Rightarrow> False
      | Some mf \<Rightarrow> resolveCompareTarget cfg mf (fieldMetas cfg) \<noteq> None) \<and>
   mainField (export_store cfg s) =
     (case mainField s of
        None \<Rightarrow> None
      | Some mf \<Rightarrow>
          (case resolveCompareTarget cfg mf (fieldMetas cfg) of
             None \<Rightarrow> None
           | Some t \<Rightarrow> Some \<lparr>spread = mf, export_name = name (field t),
                             export_semanticType = semanticType (field t)\<rparr>))"
  by (simp add: export_store_def Let_def split: option.splits)

text \<open>
  An example: of the filters on \<open>a\<close> and on the unknown field \<open>z\<close>, the snapshot keeps the
  first, with the name and type of \<open>a\<close>.
\<close>

lemma export_example:
  "export_store example_deps
     \<lparr>mainField = Some example_main, mainFieldFilters = [low_filter, unknown_filter],
      comparisonFilters = [unknown_filter]\<rparr> =
   \<lparr>mainField = Some \<lparr>spread = example_main, export_name = ''Amount'',
                       export_semanticType = Quantitative\<rparr>,
    mainFieldFilters = [\<lparr>spread = low_filter, export_name = ''Amount'',
                         export_semanticType = Quantitative\<rparr>],
    comparisonFilters = []\<rparr>"
  by (simp add: export_store_def exportFilters_def example_deps_def spec_deps_def
      resolveCompareTarget_spec_def example_fields_def example_main_def low_filter_def
      unknown_filter_def)

section \<open>The non-null assertion of the comparison stage\<close>

text \<open>
  C9. When the guard of \<^verbatim>\<open>compareGroup$\<close> passes on a value that \<^verbatim>\<open>global$\<close> emitted, the
  second resolution of the target is not null, and the stage returns without throwing.
\<close>

theorem compareGroup_assertion_safe:
  assumes "g = global_stage cfg inp"
    and "mainField g = Some mf"
    and "g_globalStats g \<noteq> None"
    and "comparisonFilters g \<noteq> []"
  shows "resolveCompareTarget cfg mf (fieldMetas cfg) \<noteq> None \<and>
         (\<exists>r. compareGroup_stage cfg g = Inr r)"
  using assms
  by (auto simp: global_stage_def compareGroup_stage_def Let_def split: option.splits)

theorem compareGroup_assertion_safe_witness:
  "mainField (global_stage example_deps example_input) = Some example_main \<and>
   g_globalStats (global_stage example_deps example_input) \<noteq> None \<and>
   comparisonFilters (global_stage example_deps example_input) \<noteq> [] \<and>
   resolveCompareTarget example_deps example_main (fieldMetas example_deps) \<noteq> None \<and>
   (\<exists>r. compareGroup_stage example_deps (global_stage example_deps example_input) = Inr r)"
proof -
  have 1: "mainField (global_stage example_deps example_input) = Some example_main"
    by (simp add: global_stage_def example_input_def Let_def)
  have 2: "g_globalStats (global_stage example_deps example_input) \<noteq> None"
    by (simp add: global_stage_def example_input_def Let_def example_deps_def spec_deps_def
        resolveCompareTarget_spec_def example_fields_def example_main_def)
  have 3: "comparisonFilters (global_stage example_deps example_input) \<noteq> []"
    by (simp add: global_stage_def example_input_def Let_def)
  from compareGroup_assertion_safe [OF refl 1 2 3] 1 2 3 show ?thesis
    by simp
qed

section \<open>Recomputation waves\<close>

lemma wave_fields:
  "globalStats (wave cfg inp s) = g_globalStats (global_stage cfg inp)"
  "selection (wave cfg inp s) = m_data (mainGroup_stage cfg (global_stage cfg inp))"
  "selectionStats (wave cfg inp s) = m_stats (mainGroup_stage cfg (global_stage cfg inp))"
  "generalAnalyses (wave cfg inp s) =
     generalAnalyses_stage cfg (mainGroup_stage cfg (global_stage cfg inp))"
  "diffGroup (wave cfg inp s) = c_data (compareGroup_value cfg inp)"
  "diffStats (wave cfg inp s) = c_stats (compareGroup_value cfg inp)"
  "comparisonAnalyses (wave cfg inp s) =
     comparisonAnalyses_stage cfg (mainGroup_stage cfg (global_stage cfg inp))
       (compareGroup_value cfg inp) (global_stage cfg inp)"
  using wave_reflects [of cfg inp s] by (simp_all add: reflects_def Let_def)

lemma mainGroup_fields:
  "m_data (mainGroup_stage cfg g) = fst (applyDividers cfg (data cfg) (mainFieldFilters g))"
  "m_mainField (mainGroup_stage cfg g) = mainField g"
  "m_globalStats (mainGroup_stage cfg g) = g_globalStats g"
  by (simp_all add: mainGroup_stage_def Let_def)

lemma global_fields:
  "mainField (global_stage cfg inp) = mainField inp"
  "mainFieldFilters (global_stage cfg inp) = mainFieldFilters inp"
  "comparisonFilters (global_stage cfg inp) = comparisonFilters inp"
  by (simp_all add: global_stage_def Let_def)

lemma compareGroup_value_data:
  "c_data (compareGroup_value cfg inp) =
     (if mainField inp = None \<or> g_globalStats (global_stage cfg inp) = None \<or> comparisonFilters inp = []
      then [] else fst (applyDividers cfg (data cfg) (comparisonFilters inp)))"
  by (simp add: compareGroup_value_def compareGroup_stage_def global_stage_def Let_def
      split: option.splits)

text \<open>
  C4. In a wave, the published general analyses are \<^verbatim>\<open>analyzeContributions\<close> of the
  published selection, the fields, the main field and the entry of the published global
  statistics at the main field's aggregator, when the main field and the global statistics
  are non-null; they are the empty list otherwise.
\<close>

theorem generalAnalyses_of_wave:
  "generalAnalyses (wave cfg inp s) =
     (case mainField inp of
        None \<Rightarrow> []
      | Some mf \<Rightarrow>
          (case globalStats (wave cfg inp s) of
             None \<Rightarrow> []
           | Some gs \<Rightarrow>
               analyzeContributions cfg (selection (wave cfg inp s)) (fieldMetas cfg) mf
                 (stats gs (aggregator mf))))"
  by (simp add: wave_fields generalAnalyses_stage_def mainGroup_fields global_fields
      split: option.splits)

lemma within_data_emit:
  assumes contract: "\<And>rows fs. set (fst (applyDividers cfg rows fs)) \<subseteq> set rows"
    and "within_data cfg s"
  shows "within_data cfg (chain_emit cfg c inp s)"
proof (cases c)
  case MainGroupSub
  with assms show ?thesis
    by (simp add: chain_emit_simps within_data_def mainGroup_fields)
next
  case CompareSub
  with assms show ?thesis
    by (simp add: chain_emit_simps within_data_def compareGroup_value_data)
qed (use assms in \<open>simp_all add: chain_emit_simps within_data_def base_emit_def
       updateComparisonAnalyses_def split: option.splits\<close>)

lemma within_data_throttle_update [simp]:
  "within_data cfg (s\<lparr>throttle := f\<rparr>) = within_data cfg s"
  by (simp add: within_data_def)

lemma fold_preserves:
  "(\<And>x s. P s \<Longrightarrow> P (f x s)) \<Longrightarrow> P s \<Longrightarrow> P (fold f xs s)"
  by (induction xs arbitrary: s) simp_all

lemma within_data_next:
  assumes "\<And>rows fs. set (fst (applyDividers cfg rows fs)) \<subseteq> set rows"
    and "within_data cfg s"
  shows "within_data cfg (chain_next cfg inp c s)"
  using within_data_emit [OF assms, of c inp]
  by (simp add: chain_next_def start_throttle_def split: throttle.splits) (use assms in simp)

lemma within_data_tick:
  assumes contract: "\<And>rows fs. set (fst (applyDividers cfg rows fs)) \<subseteq> set rows"
    and "within_data cfg s"
  shows "within_data cfg (chain_tick cfg c s)"
proof -
  have "within_data cfg (chain_emit cfg c v (s\<lparr>throttle := f\<rparr>))" for v f
    by (rule within_data_emit [OF contract]) (use assms in simp)
  with assms(2) show ?thesis
    by (simp add: chain_tick_def start_throttle_def split: throttle.splits option.splits)
qed

lemma within_data_step:
  assumes contract: "\<And>rows fs. set (fst (applyDividers cfg rows fs)) \<subseteq> set rows"
    and w: "within_data cfg s"
  shows "within_data cfg (step cfg ev s)"
proof -
  have n: "within_data cfg (notify cfg s')" if "within_data cfg s'" for s'
    unfolding notify_def
    by (rule fold_preserves [where P = "within_data cfg"]) (simp_all add: within_data_next contract that)
  have t: "within_data cfg (tick cfg s)"
    unfolding tick_def
    by (rule fold_preserves [where P = "within_data cfg"]) (simp_all add: within_data_tick contract w)
  have d: "within_data cfg (destroy s)"
    unfolding destroy_def
    by (rule fold_preserves [where P = "within_data cfg"]) (simp_all add: close_chains_def w)
  show ?thesis
  proof (cases ev)
    case (SetMainField v)
    have "within_data cfg (notify cfg (s\<lparr>mainField := v\<rparr>))"
      by (rule n) (use w in \<open>simp add: within_data_def\<close>)
    with w SetMainField show ?thesis by (simp add: step_def setMainField_def)
  next
    case (SetMainFieldFilters v)
    have "within_data cfg (notify cfg (s\<lparr>mainFieldFilters := v\<rparr>))"
      by (rule n) (use w in \<open>simp add: within_data_def\<close>)
    with SetMainFieldFilters show ?thesis by (simp add: step_def setMainFieldFilters_def)
  next
    case (SetComparisonFilters v)
    have "within_data cfg (notify cfg (s\<lparr>comparisonFilters := v\<rparr>))"
      by (rule n) (use w in \<open>simp add: within_data_def\<close>)
    with SetComparisonFilters show ?thesis by (simp add: step_def setComparisonFilters_def)
  next
    case Destroy
    with d show ?thesis by (simp add: step_def)
  next
    case Tick
    with t show ?thesis by (simp add: step_def)
  qed
qed

lemma within_data_reachable:
  assumes contract: "\<And>rows fs. set (fst (applyDividers cfg rows fs)) \<subseteq> set rows"
  shows "within_data cfg (run cfg evs (construct cfg))"
proof -
  have "within_data cfg (initial cfg)"
    by (simp add: within_data_def initial_def)
  then have "within_data cfg (construct cfg)"
    unfolding construct_def notify_def
    by (intro fold_preserves [where P = "within_data cfg"]) (simp_all add: within_data_next contract)
  then show ?thesis
    unfolding run_def
    by (intro fold_preserves [where P = "within_data cfg"]) (simp_all add: within_data_step contract)
qed

text \<open>
  C3. In a wave, the published selection is the matched part of \<^verbatim>\<open>applyDividers\<close> on the
  constructor's dataset and the main-field filters, and the published comparison group is
  the matched part on the dataset and the comparison filters, or empty when the stage
  short-circuits; neither depends on what was published before. Hence, when the matched
  part of \<^verbatim>\<open>applyDividers\<close> holds rows of its input only, both fields hold rows of the dataset
  in every state the store reaches.
\<close>

theorem selection_refilters_dataset:
  assumes "\<And>rows fs. set (fst (applyDividers cfg rows fs)) \<subseteq> set rows"
  shows "selection (wave cfg inp s) = fst (applyDividers cfg (data cfg) (mainFieldFilters inp)) \<and>
         diffGroup (wave cfg inp s) =
           (if mainField inp = None \<or> globalStats (wave cfg inp s) = None \<or> comparisonFilters inp = []
            then [] else fst (applyDividers cfg (data cfg) (comparisonFilters inp))) \<and>
         set (selection (run cfg evs (construct cfg))) \<subseteq> set (data cfg) \<and>
         set (diffGroup (run cfg evs (construct cfg))) \<subseteq> set (data cfg)"
  using within_data_reachable [OF assms, of evs]
  by (simp add: wave_fields mainGroup_fields global_fields compareGroup_value_data within_data_def)

lemma applyDividers_spec_subset: "set (fst (applyDividers_spec rows fs)) \<subseteq> set rows"
  by (simp add: applyDividers_spec_def)

theorem selection_refilters_dataset_witness:
  "selection (wave example_deps example_input (initial example_deps)) =
     fst (applyDividers example_deps (data example_deps) (mainFieldFilters example_input)) \<and>
   diffGroup (wave example_deps example_input (initial example_deps)) =
     (if mainField example_input = None \<or>
         globalStats (wave example_deps example_input (initial example_deps)) = None \<or>
         comparisonFilters example_input = []
      then [] else fst (applyDividers example_deps (data example_deps) (comparisonFilters example_input))) \<and>
   set (selection (run example_deps [SetMainFieldFilters [low_filter], Tick] (construct example_deps)))
     \<subseteq> set (data example_deps) \<and>
   set (diffGroup (run example_deps [SetMainFieldFilters [low_filter], Tick] (construct example_deps)))
     \<subseteq> set (data example_deps)"
proof -
  have "set (fst (applyDividers example_deps rows fs)) \<subseteq> set rows" for rows fs
    by (simp add: example_deps_def spec_deps_def applyDividers_spec_subset)
  from selection_refilters_dataset [of example_deps, OF this] show ?thesis .
qed

section \<open>Runs\<close>

lemma run_Nil [simp]: "run cfg [] s = s"
  by (simp add: run_def)

lemma run_Cons [simp]: "run cfg (ev # evs) s = run cfg evs (step cfg ev s)"
  by (simp add: run_def)

lemma run_append [simp]: "run cfg (xs @ ys) s = run cfg ys (run cfg xs s)"
  by (simp add: run_def)

lemma step_Tick [simp]: "step cfg Tick s = tick cfg s"
  by (simp add: step_def)

lemma throttle_upd_self [simp]: "s\<lparr>throttle := throttle s\<rparr> = s"
  by simp

lemma run_ticks_idle:
  "throttle s = (\<lambda>c. Idle) \<Longrightarrow> run cfg (replicate n Tick) s = s"
  by (induction n) (simp_all add: tick_idle)

lemma run_ticks_closed:
  "throttle s = (\<lambda>c. Closed) \<Longrightarrow> run cfg (replicate n Tick) s = s"
  by (induction n) (simp_all add: tick_closed)

lemma run_ticks_running:
  "throttle s = (\<lambda>c. Throttled r p) \<Longrightarrow> n < r \<Longrightarrow>
   run cfg (replicate n Tick) s = s\<lparr>throttle := (\<lambda>c. Throttled (r - n) p)\<rparr>"
proof (induction n arbitrary: s r)
  case 0
  then show ?case by (simp add: fun_eq_iff)
next
  case (Suc n)
  from Suc.prems have "tick cfg s = s\<lparr>throttle := (\<lambda>c. Throttled (r - 1) p)\<rparr>"
    by (simp add: tick_running)
  moreover have "run cfg (replicate n Tick) (s\<lparr>throttle := (\<lambda>c. Throttled (r - 1) p)\<rparr>) =
      s\<lparr>throttle := (\<lambda>c. Throttled (r - 1) p)\<rparr>\<lparr>throttle := (\<lambda>c. Throttled (r - 1 - n) p)\<rparr>"
    by (rule Suc.IH) (use Suc.prems in simp_all)
  ultimately show ?case by simp
qed

lemma run_Suc_ticks:
  "run cfg (replicate (Suc n) Tick) s = tick cfg (run cfg (replicate n Tick) s)"
proof -
  have "run cfg (replicate (Suc n) Tick) s = run cfg (replicate n Tick @ [Tick]) s"
    by (simp only: replicate_append_same replicate.simps)
  also have "\<dots> = tick cfg (run cfg (replicate n Tick) s)"
    by (simp only: run_append run_Cons run_Nil step_Tick)
  finally show ?thesis .
qed

lemma run_ticks_trailing:
  assumes "throttle s = (\<lambda>c. Throttled r (Some v))" and "0 < r"
  shows "run cfg (replicate r Tick) s =
           (wave cfg v s)\<lparr>throttle := (\<lambda>c. Throttled throttle_ms None)\<rparr>"
proof -
  obtain n where r: "r = Suc n" using assms(2) by (cases r) simp_all
  have "run cfg (replicate n Tick) s = s\<lparr>throttle := (\<lambda>c. Throttled (r - n) (Some v))\<rparr>"
    by (rule run_ticks_running) (use assms r in simp_all)
  moreover have "tick cfg (s\<lparr>throttle := (\<lambda>c. Throttled (r - n) (Some v))\<rparr>) =
      (wave cfg v (s\<lparr>throttle := (\<lambda>c. Throttled (r - n) (Some v))\<rparr>))
        \<lparr>throttle := (\<lambda>c. Throttled throttle_ms None)\<rparr>"
    by (rule tick_ends_trailing [where r = "r - n"]) (simp_all add: r)
  ultimately show ?thesis
    unfolding r run_Suc_ticks by (simp add: wave_def wave_throttle_update)
qed

lemma run_ticks_to_idle:
  assumes "throttle s = (\<lambda>c. Throttled r None)" and "0 < r"
  shows "run cfg (replicate r Tick) s = s\<lparr>throttle := (\<lambda>c. Idle)\<rparr>"
proof -
  obtain n where r: "r = Suc n" using assms(2) by (cases r) simp_all
  have "run cfg (replicate n Tick) s = s\<lparr>throttle := (\<lambda>c. Throttled (r - n) None)\<rparr>"
    by (rule run_ticks_running) (use assms r in simp_all)
  moreover have "tick cfg (s\<lparr>throttle := (\<lambda>c. Throttled (r - n) None)\<rparr>) =
      s\<lparr>throttle := (\<lambda>c. Throttled (r - n) None)\<rparr>\<lparr>throttle := (\<lambda>c. Idle)\<rparr>"
    by (rule tick_ends_idle [where r = "r - n"]) (simp_all add: r)
  ultimately show ?thesis
    unfolding r run_Suc_ticks by simp
qed

lemma throttle_construct: "throttle (construct cfg) = (\<lambda>c. Throttled throttle_ms None)"
  by (simp add: construct_def notify_idle initial_def)

lemma inputs_construct:
  "inputs (construct cfg) = \<lparr>mainField = None, mainFieldFilters = [], comparisonFilters = []\<rparr>"
  by (simp add: construct_def notify_idle initial_def inputs_wave) (simp add: inputs_def)

section \<open>The inputs change by the setters only\<close>

lemma inputs_start_throttle [simp]: "inputs (start_throttle c s) = inputs s"
  by (simp add: start_throttle_def)

lemma inputs_chain_next: "inputs (chain_next cfg inp c s) = inputs s"
  by (simp add: chain_next_def inputs_chain_emit split: throttle.splits)

lemma inputs_chain_tick: "inputs (chain_tick cfg c s) = inputs s"
  by (simp add: chain_tick_def inputs_chain_emit split: throttle.splits option.splits)

lemma inputs_notify: "inputs (notify cfg s) = inputs s"
  unfolding notify_def
  by (rule fold_preserves [where P = "\<lambda>t. inputs t = inputs s"]) (simp_all add: inputs_chain_next)

lemma inputs_tick: "inputs (tick cfg s) = inputs s"
  unfolding tick_def
  by (rule fold_preserves [where P = "\<lambda>t. inputs t = inputs s"]) (simp_all add: inputs_chain_tick)

lemma inputs_ticks: "inputs (run cfg (replicate n Tick) s) = inputs s"
  by (induction n arbitrary: s) (simp_all add: inputs_tick)

lemma inputs_setMainFieldFilters:
  "inputs (step cfg (SetMainFieldFilters F) s) = (inputs s)\<lparr>mainFieldFilters := F\<rparr>"
  by (simp add: step_def setMainFieldFilters_def inputs_notify) (simp add: inputs_def)

lemma selectionStats_depends:
  "mainField i1 = mainField i2 \<Longrightarrow> mainFieldFilters i1 = mainFieldFilters i2 \<Longrightarrow>
   m_stats (mainGroup_stage cfg (global_stage cfg i1)) =
   m_stats (mainGroup_stage cfg (global_stage cfg i2))"
  by (simp add: mainGroup_stage_def global_stage_def Let_def split: option.splits)

section \<open>Settled states\<close>

text \<open>
  C2. In every state that a constructed store reaches by calls of the setters and the
  passing of time, and in which every recomputation wave has completed, the three
  statistics are null when the main field is null, the selection statistics are null when
  there is no main-field filter, and the comparison statistics are null when there is no
  comparison filter.
\<close>

theorem stats_null_when_settled:
  assumes "Destroy \<notin> set evs" and "settled (run cfg evs (construct cfg))"
  shows "stats_null_invariant (run cfg evs (construct cfg))"
proof -
  have "coherent cfg (run cfg evs (construct cfg))"
    using coherent_construct assms(1) by (rule coherent_run)
  then have "reflects cfg (inputs (run cfg evs (construct cfg))) (run cfg evs (construct cfg))"
    using assms(2) by (rule coherent_settled_reflects)
  then show ?thesis
    by (rule reflects_stats_null_invariant)
qed

lemma settled_after_call:
  assumes "throttle s = (\<lambda>c. Throttled r p)" and "0 < r"
  shows "settled (run cfg (replicate r Tick) (notify cfg s))"
proof -
  have "notify cfg s = s\<lparr>throttle := (\<lambda>c. Throttled r (Some (inputs s)))\<rparr>"
    using assms(1) by (rule notify_throttled)
  moreover have "run cfg (replicate r Tick) (s\<lparr>throttle := (\<lambda>c. Throttled r (Some (inputs s)))\<rparr>) =
      (wave cfg (inputs s) (s\<lparr>throttle := (\<lambda>c. Throttled r (Some (inputs s)))\<rparr>))
        \<lparr>throttle := (\<lambda>c. Throttled throttle_ms None)\<rparr>"
    by (rule run_ticks_trailing) (simp_all add: assms(2))
  ultimately show ?thesis
    by (simp add: settled_sync [where T = "Throttled throttle_ms None"])
qed

theorem stats_null_when_settled_witness:
  "Destroy \<notin> set (SetMainField (Some example_main) # replicate throttle_ms (Tick :: cell event)) \<and>
   settled (run example_deps (SetMainField (Some example_main) # replicate throttle_ms Tick)
              (construct example_deps)) \<and>
   stats_null_invariant
     (run example_deps (SetMainField (Some example_main) # replicate throttle_ms Tick)
        (construct example_deps))"
proof -
  let ?evs = "SetMainField (Some example_main) # replicate throttle_ms Tick :: cell event list"
  have 1: "Destroy \<notin> set ?evs" by simp
  have "settled (run example_deps (replicate throttle_ms Tick)
           (notify example_deps ((construct example_deps)\<lparr>mainField := Some example_main\<rparr>)))"
    by (rule settled_after_call [where p = None]) (simp_all add: throttle_construct throttle_ms_def)
  then have 2: "settled (run example_deps ?evs (construct example_deps))"
    by (simp add: step_def setMainField_def)
  from stats_null_when_settled [OF 1 2] 1 2 show ?thesis by simp
qed

section \<open>Teardown\<close>

lemma destroy_eq: "destroy s = s\<lparr>throttle := (\<lambda>c. Closed)\<rparr>"
proof -
  have "throttle (destroy s) c = Closed" for c
    by (cases c) (simp_all add: destroy_def subscriptions_def close_chains_def)
  then have "throttle (destroy s) = (\<lambda>c. Closed)"
    by (simp add: fun_eq_iff)
  moreover have "destroy s = s\<lparr>throttle := throttle (destroy s)\<rparr>"
    by (simp add: destroy_def subscriptions_def close_chains_def)
  ultimately show ?thesis
    by simp
qed

lemma closed_step:
  assumes "throttle s = (\<lambda>c. Closed)"
  shows "throttle (step cfg ev s) = (\<lambda>c. Closed) \<and>
         published (step cfg ev s) = published s \<and>
         contributions_calls (step cfg ev s) = contributions_calls s \<and>
         comparisons_calls (step cfg ev s) = comparisons_calls s"
proof (cases ev)
  case (SetMainField v)
  have "notify cfg (s\<lparr>mainField := v\<rparr>) = s\<lparr>mainField := v\<rparr>"
    by (rule notify_closed) (simp add: assms)
  with SetMainField assms show ?thesis
    by (simp add: step_def setMainField_def published_def)
next
  case (SetMainFieldFilters v)
  have "notify cfg (s\<lparr>mainFieldFilters := v\<rparr>) = s\<lparr>mainFieldFilters := v\<rparr>"
    by (rule notify_closed) (simp add: assms)
  with SetMainFieldFilters assms show ?thesis
    by (simp add: step_def setMainFieldFilters_def published_def)
next
  case (SetComparisonFilters v)
  have "notify cfg (s\<lparr>comparisonFilters := v\<rparr>) = s\<lparr>comparisonFilters := v\<rparr>"
    by (rule notify_closed) (simp add: assms)
  with SetComparisonFilters assms show ?thesis
    by (simp add: step_def setComparisonFilters_def published_def)
next
  case Destroy
  with assms show ?thesis
    by (simp add: step_def destroy_eq published_def)
next
  case Tick
  with assms show ?thesis
    by (simp add: tick_closed)
qed

lemma closed_run:
  "throttle s = (\<lambda>c. Closed) \<Longrightarrow>
   throttle (run cfg evs s) = (\<lambda>c. Closed) \<and>
   published (run cfg evs s) = published s \<and>
   contributions_calls (run cfg evs s) = contributions_calls s \<and>
   comparisons_calls (run cfg evs s) = comparisons_calls s"
proof (induction evs arbitrary: s)
  case Nil
  then show ?case by simp
next
  case (Cons ev evs)
  from closed_step [OF Cons.prems, of cfg ev] Cons.IH [of "step cfg ev s"]
  show ?case by simp
qed

text \<open>
  C6. After \<^verbatim>\<open>destroy\<close>, whatever is called and however much time passes, the published
  fields stay as they were when \<^verbatim>\<open>destroy\<close> was called, and no analyzer is evaluated: no
  timer is left to fire. \<^verbatim>\<open>destroy\<close> changes no published field, and a second \<^verbatim>\<open>destroy\<close>
  changes nothing.
\<close>

theorem destroy_stops_publication:
  "published (run cfg evs (destroy s)) = published s \<and>
   contributions_calls (run cfg evs (destroy s)) = contributions_calls s \<and>
   comparisons_calls (run cfg evs (destroy s)) = comparisons_calls s \<and>
   throttle (run cfg evs (destroy s)) = (\<lambda>c. Closed) \<and>
   destroy (destroy s) = destroy s"
  using closed_run [of "destroy s" cfg evs]
  by (simp add: destroy_eq published_def)

section \<open>Following a run step by step\<close>

lemma wave_frame [simp]:
  "throttle (wave cfg inp s) = throttle s"
  "mainField (wave cfg inp s) = mainField s"
  "mainFieldFilters (wave cfg inp s) = mainFieldFilters s"
  "comparisonFilters (wave cfg inp s) = comparisonFilters s"
  using inputs_wave [of cfg inp s]
  by (simp_all add: throttle_wave inputs_def)

lemma wave_latest [simp]:
  "latest_mainGroup (wave cfg inp s) = Some (mainGroup_stage cfg (global_stage cfg inp))"
  "latest_compareGroup (wave cfg inp s) = Some (compareGroup_value cfg inp)"
  "latest_global (wave cfg inp s) = Some (global_stage cfg inp)"
  using wave_reflects [of cfg inp s] by (simp_all add: reflects_def Let_def)

lemma wave_comparisons_calls:
  "comparisons_calls (wave cfg inp s) =
     comparisons_calls s +
     (case latest_compareGroup s of
        None \<Rightarrow> 0
      | Some c \<Rightarrow> (case latest_global s of None \<Rightarrow> 0 | Some g \<Rightarrow> comparisonAnalyses_calls g)) +
     (case latest_global s of None \<Rightarrow> 0 | Some g \<Rightarrow> comparisonAnalyses_calls g) +
     comparisonAnalyses_calls (global_stage cfg inp)"
  by (simp add: wave_unfold chain_emit_simps comparisons_calls_base_emit base_emit_def
      updateComparisonAnalyses_def split: option.splits)

lemma step_SetMainField_sync:
  assumes "throttle s = (\<lambda>c. throttle s GlobalSub)"
  shows "step cfg (SetMainField v) s =
     (if v = None \<and> mainField s = None then s
      else case throttle s GlobalSub of
             Closed \<Rightarrow> s\<lparr>mainField := v\<rparr>
           | Idle \<Rightarrow> (wave cfg (inputs (s\<lparr>mainField := v\<rparr>)) (s\<lparr>mainField := v\<rparr>))
                       \<lparr>throttle := (\<lambda>c. Throttled throttle_ms None)\<rparr>
           | Throttled r p \<Rightarrow>
               s\<lparr>mainField := v, throttle := (\<lambda>c. Throttled r (Some (inputs (s\<lparr>mainField := v\<rparr>))))\<rparr>)"
proof (cases "throttle s GlobalSub")
  case Closed
  with assms have "throttle (s\<lparr>mainField := v\<rparr>) = (\<lambda>c. Closed)" by simp
  from notify_closed [OF this] Closed show ?thesis
    by (simp add: step_def setMainField_def)
next
  case Idle
  with assms have "throttle (s\<lparr>mainField := v\<rparr>) = (\<lambda>c. Idle)" by simp
  from notify_idle [OF this] Idle show ?thesis
    by (simp add: step_def setMainField_def)
next
  case (Throttled r p)
  with assms have "throttle (s\<lparr>mainField := v\<rparr>) = (\<lambda>c. Throttled r p)" by simp
  from notify_throttled [OF this] Throttled show ?thesis
    by (simp add: step_def setMainField_def)
qed

lemma step_SetMainFieldFilters_sync:
  assumes "throttle s = (\<lambda>c. throttle s GlobalSub)"
  shows "step cfg (SetMainFieldFilters v) s =
     (case throttle s GlobalSub of
        Closed \<Rightarrow> s\<lparr>mainFieldFilters := v\<rparr>
      | Idle \<Rightarrow> (wave cfg (inputs (s\<lparr>mainFieldFilters := v\<rparr>)) (s\<lparr>mainFieldFilters := v\<rparr>))
                  \<lparr>throttle := (\<lambda>c. Throttled throttle_ms None)\<rparr>
      | Throttled r p \<Rightarrow>
          s\<lparr>mainFieldFilters := v,
            throttle := (\<lambda>c. Throttled r (Some (inputs (s\<lparr>mainFieldFilters := v\<rparr>))))\<rparr>)"
proof (cases "throttle s GlobalSub")
  case Closed
  with assms have "throttle (s\<lparr>mainFieldFilters := v\<rparr>) = (\<lambda>c. Closed)" by simp
  from notify_closed [OF this] Closed show ?thesis
    by (simp add: step_def setMainFieldFilters_def)
next
  case Idle
  with assms have "throttle (s\<lparr>mainFieldFilters := v\<rparr>) = (\<lambda>c. Idle)" by simp
  from notify_idle [OF this] Idle show ?thesis
    by (simp add: step_def setMainFieldFilters_def)
next
  case (Throttled r p)
  with assms have "throttle (s\<lparr>mainFieldFilters := v\<rparr>) = (\<lambda>c. Throttled r p)" by simp
  from notify_throttled [OF this] Throttled show ?thesis
    by (simp add: step_def setMainFieldFilters_def)
qed

lemma step_SetComparisonFilters_sync:
  assumes "throttle s = (\<lambda>c. throttle s GlobalSub)"
  shows "step cfg (SetComparisonFilters v) s =
     (case throttle s GlobalSub of
        Closed \<Rightarrow> s\<lparr>comparisonFilters := v\<rparr>
      | Idle \<Rightarrow> (wave cfg (inputs (s\<lparr>comparisonFilters := v\<rparr>)) (s\<lparr>comparisonFilters := v\<rparr>))
                  \<lparr>throttle := (\<lambda>c. Throttled throttle_ms None)\<rparr>
      | Throttled r p \<Rightarrow>
          s\<lparr>comparisonFilters := v,
            throttle := (\<lambda>c. Throttled r (Some (inputs (s\<lparr>comparisonFilters := v\<rparr>))))\<rparr>)"
proof (cases "throttle s GlobalSub")
  case Closed
  with assms have "throttle (s\<lparr>comparisonFilters := v\<rparr>) = (\<lambda>c. Closed)" by simp
  from notify_closed [OF this] Closed show ?thesis
    by (simp add: step_def setComparisonFilters_def)
next
  case Idle
  with assms have "throttle (s\<lparr>comparisonFilters := v\<rparr>) = (\<lambda>c. Idle)" by simp
  from notify_idle [OF this] Idle show ?thesis
    by (simp add: step_def setComparisonFilters_def)
next
  case (Throttled r p)
  with assms have "throttle (s\<lparr>comparisonFilters := v\<rparr>) = (\<lambda>c. Throttled r p)" by simp
  from notify_throttled [OF this] Throttled show ?thesis
    by (simp add: step_def setComparisonFilters_def)
qed

lemma run_ticks_sync:
  assumes "throttle s = (\<lambda>c. throttle s GlobalSub)"
  shows "run cfg (replicate n Tick) s =
     (case throttle s GlobalSub of
        Closed \<Rightarrow> s
      | Idle \<Rightarrow> s
      | Throttled r p \<Rightarrow>
          if n < r \<or> n = 0 then s\<lparr>throttle := (\<lambda>c. Throttled (r - n) p)\<rparr>
          else
            (case p of
               None \<Rightarrow> s\<lparr>throttle := (\<lambda>c. Idle)\<rparr>
             | Some v \<Rightarrow>
                 run cfg (replicate (n - max r 1) Tick)
                   ((wave cfg v s)\<lparr>throttle := (\<lambda>c. Throttled throttle_ms None)\<rparr>)))"
proof (cases "throttle s GlobalSub")
  case Closed
  with assms show ?thesis by (simp add: run_ticks_closed)
next
  case Idle
  with assms show ?thesis by (simp add: run_ticks_idle)
next
  case (Throttled r p)
  with assms have t: "throttle s = (\<lambda>c. Throttled r p)" by simp
  show ?thesis
  proof (cases "n < r \<or> n = 0")
    case True
    then show ?thesis
    proof
      assume "n < r"
      with t Throttled show ?thesis by (simp add: run_ticks_running)
    next
      assume "n = 0"
      with t Throttled show ?thesis by (simp add: fun_eq_iff)
    qed
  next
    case False
    then have n: "replicate n Tick = replicate (max r 1) Tick @ replicate (n - max r 1) Tick"
      by (simp add: replicate_add [symmetric])
    have first: "run cfg (replicate (max r 1) Tick) s =
        (case p of
           None \<Rightarrow> s\<lparr>throttle := (\<lambda>c. Idle)\<rparr>
         | Some v \<Rightarrow> (wave cfg v s)\<lparr>throttle := (\<lambda>c. Throttled throttle_ms None)\<rparr>)"
    proof (cases "r = 0")
      case True
      with t show ?thesis
        by (cases p) (simp_all add: tick_ends_idle tick_ends_trailing)
    next
      case False
      then have "max r 1 = r" by simp
      with False t show ?thesis
        by (cases p) (simp_all add: run_ticks_to_idle run_ticks_trailing)
    qed
    have "run cfg (replicate n Tick) s =
            run cfg (replicate (n - max r 1) Tick) (run cfg (replicate (max r 1) Tick) s)"
      by (subst n) (rule run_append)
    with False Throttled first show ?thesis
      by (cases p) (simp_all add: run_ticks_idle)
  qed
qed

lemmas follow = step_SetMainField_sync step_SetMainFieldFilters_sync step_SetComparisonFilters_sync
  run_ticks_sync throttle_construct throttle_ms_def

lemma target_run_eq:
  "target_run =
     (wave target_deps example_input
        ((construct target_deps)
           \<lparr>mainField := Some example_main, mainFieldFilters := [low_filter],
            comparisonFilters := [high_filter],
            throttle := (\<lambda>c. Throttled throttle_ms (Some example_input))\<rparr>))
       \<lparr>throttle := (\<lambda>c. Throttled throttle_ms None)\<rparr>"
  by (simp add: target_run_def follow) (simp add: inputs_def example_input_def throttle_ms_def)

lemma example_eval:
  "fst (applyDividers_spec example_rows [low_filter]) =
     [[(''a'', Num 10), (''b'', Num 1)], [(''a'', Num 20), (''b'', Num 2)]]"
  "fst (applyDividers_spec example_rows [high_filter]) =
     [[(''a'', Num 30), (''b'', Num 3)], [(''a'', Num 40), (''b'', Num 4)]]"
  by (simp_all add: applyDividers_spec_def example_rows_def low_filter_def high_filter_def
      passes_def cell_of_def)

lemma mainGroup_stats:
  "m_stats (mainGroup_stage cfg (global_stage cfg inp)) =
     (case mainField inp of
        None \<Rightarrow> None
      | Some mf \<Rightarrow>
          (case resolveCompareTarget cfg mf (fieldMetas cfg) of
             None \<Rightarrow> None
           | Some t \<Rightarrow>
               if mainFieldFilters inp = [] then None
               else Some \<lparr>defn = mf, stats_field = field t,
                          stats = statDivision cfg (data cfg)
                                    (fst (applyDividers cfg (data cfg) (mainFieldFilters inp)))
                                    (fieldMetas cfg) (fid mf)\<rparr>))"
  by (simp add: mainGroup_stage_def global_stage_def Let_def split: option.splits)

lemma compareGroup_stats:
  "c_stats (compareGroup_value cfg inp) =
     (case mainField inp of
        None \<Rightarrow> None
      | Some mf \<Rightarrow>
          (case resolveCompareTarget cfg mf (fieldMetas cfg) of
             None \<Rightarrow> None
           | Some t \<Rightarrow>
               if comparisonFilters inp = [] then None
               else Some \<lparr>defn = mf, stats_field = field t,
                          stats = statDivision cfg (data cfg)
                                    (fst (applyDividers cfg (data cfg) (comparisonFilters inp)))
                                    (fieldMetas cfg) (fid mf)\<rparr>))"
  by (simp add: compareGroup_value_def compareGroup_stage_def global_stage_def Let_def
      split: option.splits)

lemma global_globalStats:
  "g_globalStats (global_stage cfg inp) =
     (case mainField inp of
        None \<Rightarrow> None
      | Some mf \<Rightarrow>
          (case resolveCompareTarget cfg mf (fieldMetas cfg) of
             None \<Rightarrow> None
           | Some t \<Rightarrow>
               Some \<lparr>defn = mf, stats_field = field t,
                     stats = statDivision cfg (data cfg) (data cfg) (fieldMetas cfg)
                               (fid (field t))\<rparr>))"
  by (simp add: global_stage_def Let_def split: option.splits)

text \<open>
  Where the resolved field has the id of the main field, the statistics that a wave
  publishes are the aggregates of the field they are annotated with.
\<close>

lemma downstream_stats_same_fid:
  assumes "mainField inp = Some mf"
    and "resolveCompareTarget cfg mf (fieldMetas cfg) = Some t"
    and "fid (field t) = fid mf"
  shows "selectionStats (wave cfg inp s) =
           (if mainFieldFilters inp = [] then None
            else Some \<lparr>defn = mf, stats_field = field t,
                       stats = statDivision cfg (data cfg) (selection (wave cfg inp s))
                                 (fieldMetas cfg) (fid (field t))\<rparr>)"
    and "diffStats (wave cfg inp s) =
           (if comparisonFilters inp = [] then None
            else Some \<lparr>defn = mf, stats_field = field t,
                       stats = statDivision cfg (data cfg) (diffGroup (wave cfg inp s))
                                 (fieldMetas cfg) (fid (field t))\<rparr>)"
  using assms
  by (simp_all add: wave_fields mainGroup_stats compareGroup_stats mainGroup_fields global_fields
      compareGroup_value_data global_globalStats)

text \<open>
  C1. The claim holds where the target has the main field's id, and the code departs from
  it where it has not: \<^verbatim>\<open>mainGroup$\<close> and \<^verbatim>\<open>compareGroup$\<close> pass \<^verbatim>\<open>mainField.fid\<close> to
  \<^verbatim>\<open>statDivision\<close>, where \<^verbatim>\<open>global$\<close> passes \<^verbatim>\<open>targetField.field.fid\<close>. With the main field
  \<open>a\<close> (sum) resolved to the field \<open>b\<close>, the published selection and comparison statistics
  are annotated with \<open>b\<close> and hold the sums of \<open>a\<close> (30 and 70), not those of \<open>b\<close> over the
  same rows (3 and 7); the global statistics hold the sum of \<open>b\<close> (10).
\<close>

theorem downstream_stats_use_main_fid:
  "settled target_run \<and>
   map_option (\<lambda>st. (fid (stats_field st), stats st Sum)) (globalStats target_run) = Some (''b'', 10) \<and>
   selection target_run = [[(''a'', Num 10), (''b'', Num 1)], [(''a'', Num 20), (''b'', Num 2)]] \<and>
   map_option (\<lambda>st. (fid (stats_field st), stats st Sum)) (selectionStats target_run) = Some (''b'', 30) \<and>
   statDivision target_deps (data target_deps) (selection target_run) (fieldMetas target_deps) ''b'' Sum = 3 \<and>
   diffGroup target_run = [[(''a'', Num 30), (''b'', Num 3)], [(''a'', Num 40), (''b'', Num 4)]] \<and>
   map_option (\<lambda>st. (fid (stats_field st), stats st Sum)) (diffStats target_run) = Some (''b'', 70) \<and>
   statDivision target_deps (data target_deps) (diffGroup target_run) (fieldMetas target_deps) ''b'' Sum = 7"
proof -
  have t: "throttle target_run = (\<lambda>c. Throttled throttle_ms None)"
    by (simp add: target_run_eq)
  have 0: "settled target_run"
    using settled_sync [OF t] by simp
  have r: "resolveCompareTarget target_deps example_main (fieldMetas target_deps) =
             Some \<lparr>field = \<lparr>fid = ''b'', name = ''Batch'', semanticType = Quantitative\<rparr>\<rparr>"
    by (simp add: target_deps_def spec_deps_def resolveCompareTarget_spec_def example_main_def
        example_fields_def)
  have m: "fid example_main = ''a''"
    by (simp add: example_main_def)
  have d: "data target_deps = example_rows" "applyDividers target_deps = applyDividers_spec"
    "statDivision target_deps = statDivision_spec"
    by (simp_all add: target_deps_def spec_deps_def)
  have g: "map_option (\<lambda>st. (fid (stats_field st), stats st Sum)) (globalStats target_run) = Some (''b'', 10)"
    by (simp add: target_run_eq wave_fields global_stage_def example_input_def r d Let_def
        statDivision_spec_def example_rows_def cell_of_def)
  have sel: "selection target_run = [[(''a'', Num 10), (''b'', Num 1)], [(''a'', Num 20), (''b'', Num 2)]]"
    by (simp add: target_run_eq wave_fields mainGroup_fields global_fields example_input_def d
        example_eval)
  have ss: "map_option (\<lambda>st. (fid (stats_field st), stats st Sum)) (selectionStats target_run) = Some (''b'', 30)"
    by (simp add: target_run_eq wave_fields mainGroup_stage_def global_stage_def example_input_def
        r d Let_def example_eval statDivision_spec_def cell_of_def m)
  have st: "statDivision target_deps (data target_deps) (selection target_run) (fieldMetas target_deps) ''b'' Sum = 3"
    by (simp add: sel d statDivision_spec_def cell_of_def)
  have dg: "diffGroup target_run = [[(''a'', Num 30), (''b'', Num 3)], [(''a'', Num 40), (''b'', Num 4)]]"
    by (simp add: target_run_eq wave_fields compareGroup_value_data global_stage_def
        example_input_def r d Let_def example_eval)
  have ds: "map_option (\<lambda>st. (fid (stats_field st), stats st Sum)) (diffStats target_run) = Some (''b'', 70)"
    by (simp add: target_run_eq wave_fields compareGroup_value_def compareGroup_stage_def
        global_stage_def example_input_def r d Let_def example_eval statDivision_spec_def cell_of_def m)
  have dt: "statDivision target_deps (data target_deps) (diffGroup target_run) (fieldMetas target_deps) ''b'' Sum = 7"
    by (simp add: dg d statDivision_spec_def cell_of_def)
  from 0 g sel ss st dg ds dt show ?thesis by simp
qed

section \<open>Bursts\<close>

lemma calls_within_mono: "calls_within cfg s evs b \<Longrightarrow> b \<le> b' \<Longrightarrow> calls_within cfg s evs b'"
  by (auto simp: calls_within_def)

lemma calls_within_Cons:
  assumes "contributions_calls (step cfg ev s) \<le> contributions_calls s + a"
    and "comparisons_calls (step cfg ev s) \<le> comparisons_calls s + 3 * a"
    and "calls_within cfg (step cfg ev s) evs b"
  shows "calls_within cfg s (ev # evs) (a + b)"
  using assms by (auto simp: calls_within_def)

lemma calls_within_same:
  assumes "contributions_calls s' = contributions_calls s"
    and "comparisons_calls s' = comparisons_calls s"
    and "calls_within cfg s' evs b"
    and "run cfg evs' s = run cfg evs s'"
  shows "calls_within cfg s evs' b"
  using assms by (auto simp: calls_within_def)

lemma wave_calls:
  "contributions_calls ((wave cfg inp s)\<lparr>throttle := f\<rparr>) \<le> contributions_calls s + 1"
  "comparisons_calls ((wave cfg inp s)\<lparr>throttle := f\<rparr>) \<le> comparisons_calls s + 3 * 1"
  using wave_contributions_calls_le [of cfg inp s] wave_comparisons_calls_le [of cfg inp s]
  by simp_all

lemma quiet_calls:
  "throttle s = (\<lambda>c. T) \<Longrightarrow>
   calls_within cfg s (replicate n Tick) (trailing_due T)"
proof (induction n arbitrary: s T)
  case 0
  then show ?case by (simp add: calls_within_def)
next
  case (Suc n)
  show ?case
  proof (cases T)
    case Closed
    with Suc.prems show ?thesis
      by (simp add: calls_within_def run_ticks_closed trailing_due_def del: replicate_Suc)
  next
    case Idle
    with Suc.prems show ?thesis
      by (simp add: calls_within_def run_ticks_idle trailing_due_def del: replicate_Suc)
  next
    case (Throttled r p)
    with Suc.prems have t: "throttle s = (\<lambda>c. Throttled r p)" by simp
    show ?thesis
    proof (cases "1 < r")
      case True
      with t have st: "tick cfg s = s\<lparr>throttle := (\<lambda>c. Throttled (r - 1) p)\<rparr>"
        by (simp add: tick_running)
      from Suc.IH [of "tick cfg s" "Throttled (r - 1) p"]
      have "calls_within cfg (tick cfg s) (replicate n Tick) (trailing_due T)"
        by (simp add: st Throttled trailing_due_def)
      then show ?thesis
        by (simp add: calls_within_def st)
    next
      case False
      then have r: "r \<le> 1" by simp
      show ?thesis
      proof (cases p)
        case None
        with t r have st: "tick cfg s = s\<lparr>throttle := (\<lambda>c. Idle)\<rparr>"
          by (simp add: tick_ends_idle)
        from Suc.IH [of "tick cfg s" Idle]
        have "calls_within cfg (tick cfg s) (replicate n Tick) 0"
          by (simp add: st trailing_due_def)
        then show ?thesis
          using Throttled None by (simp add: calls_within_def st trailing_due_def)
      next
        case (Some v)
        with t r have st: "tick cfg s =
            (wave cfg v s)\<lparr>throttle := (\<lambda>c. Throttled throttle_ms None)\<rparr>"
          by (simp add: tick_ends_trailing)
        from Suc.IH [of "tick cfg s" "Throttled throttle_ms None"]
        have "calls_within cfg (tick cfg s) (replicate n Tick) 0"
          by (simp add: st trailing_due_def)
        moreover note wave_calls [where cfg = cfg and inp = v and s = s and f = "\<lambda>c. Throttled throttle_ms None"]
        ultimately show ?thesis
          using Throttled Some by (simp add: calls_within_def st trailing_due_def)
      qed
    qed
  qed
qed

lemma burst_calls:
  "list_all burst_event burst \<Longrightarrow> duration burst \<le> w \<Longrightarrow> w < throttle_ms \<Longrightarrow>
   throttle s = (\<lambda>c. T) \<Longrightarrow>
   calls_within cfg s (burst @ replicate n Tick) (waves_bound T w)"
proof (induction burst arbitrary: s T w)
  case Nil
  have "calls_within cfg s (replicate n Tick) (trailing_due T)"
    using Nil.prems(4) by (rule quiet_calls)
  moreover have "trailing_due T \<le> waves_bound T w"
    by (simp add: waves_bound_def trailing_due_def split: throttle.splits option.splits)
  ultimately have "calls_within cfg s (replicate n Tick) (waves_bound T w)"
    by (rule calls_within_mono)
  then show ?case by simp
next
  case (Cons ev burst)
  from Cons.prems(1) have rest: "list_all burst_event burst" by simp
  from Cons.prems(4) have sync: "throttle s = (\<lambda>c. throttle s GlobalSub)"
    by simp
  from Cons.prems(4) have T: "throttle s GlobalSub = T"
    by simp
  show ?case
  proof (cases ev)
    case (SetMainField v)
    with Cons.prems(1) show ?thesis by (simp add: burst_event_def)
  next
    case (SetComparisonFilters v)
    with Cons.prems(1) show ?thesis by (simp add: burst_event_def)
  next
    case Destroy
    with Cons.prems(1) show ?thesis by (simp add: burst_event_def)
  next
    case (SetMainFieldFilters F)
    with Cons.prems(2) have d: "duration burst \<le> w"
      by (simp add: duration_def is_tick_def)
    note st = step_SetMainFieldFilters_sync [OF sync, of cfg F, unfolded T]
    show ?thesis
    proof (cases T)
      case Closed
      from Cons.IH [OF rest d Cons.prems(3), of "step cfg ev s" Closed]
      have "calls_within cfg (step cfg ev s) (burst @ replicate n Tick) 0"
        using Closed Cons.prems(4) SetMainFieldFilters st by (simp add: waves_bound_def)
      with Closed SetMainFieldFilters st show ?thesis
        by (simp add: calls_within_def waves_bound_def)
    next
      case Idle
      from Cons.IH [OF rest d Cons.prems(3), of "step cfg ev s" "Throttled throttle_ms None"]
      have "calls_within cfg (step cfg ev s) (burst @ replicate n Tick) 1"
        using Idle SetMainFieldFilters st Cons.prems(3) by (simp add: waves_bound_def)
      moreover have "contributions_calls (step cfg ev s) \<le> contributions_calls s + 1"
        "comparisons_calls (step cfg ev s) \<le> comparisons_calls s + 3 * 1"
        using wave_calls [where cfg = cfg and inp = "inputs (s\<lparr>mainFieldFilters := F\<rparr>)"
            and s = "s\<lparr>mainFieldFilters := F\<rparr>" and f = "\<lambda>c. Throttled throttle_ms None"]
        by (simp_all add: Idle SetMainFieldFilters st)
      ultimately have "calls_within cfg s (ev # burst @ replicate n Tick) (1 + 1)"
        by (intro calls_within_Cons)
      with Idle show ?thesis by (simp add: waves_bound_def numeral_2_eq_2)
    next
      case (Throttled r p)
      from Cons.IH [OF rest d Cons.prems(3), of "step cfg ev s"
          "Throttled r (Some (inputs (s\<lparr>mainFieldFilters := F\<rparr>)))"]
      have "calls_within cfg (step cfg ev s) (burst @ replicate n Tick)
              (waves_bound (Throttled r (Some (inputs (s\<lparr>mainFieldFilters := F\<rparr>)))) w)"
        using Throttled SetMainFieldFilters st by simp
      with Throttled SetMainFieldFilters st show ?thesis
        by (simp add: calls_within_def waves_bound_def)
    qed
  next
    case Tick
    with Cons.prems(2) have d: "duration burst \<le> w - 1" and w: "1 \<le> w"
      by (simp_all add: duration_def is_tick_def)
    from Cons.prems(3) have w': "w - 1 < throttle_ms" by simp
    show ?thesis
    proof (cases T)
      case Closed
      with Cons.prems(4) have st: "step cfg ev s = s"
        by (simp add: Tick tick_closed)
      have "calls_within cfg s (burst @ replicate n Tick) (waves_bound T (w - 1))"
        by (rule Cons.IH [OF rest d w' Cons.prems(4)])
      with Closed st show ?thesis
        by (simp add: calls_within_def waves_bound_def)
    next
      case Idle
      with Cons.prems(4) have st: "step cfg ev s = s"
        by (simp add: Tick tick_idle)
      have "calls_within cfg s (burst @ replicate n Tick) (waves_bound T (w - 1))"
        by (rule Cons.IH [OF rest d w' Cons.prems(4)])
      with Idle st show ?thesis
        by (simp add: calls_within_def waves_bound_def)
    next
      case (Throttled r p)
      with Cons.prems(4) have t: "throttle s = (\<lambda>c. Throttled r p)" by simp
      show ?thesis
      proof (cases "1 < r")
        case True
        with t have st: "step cfg ev s = s\<lparr>throttle := (\<lambda>c. Throttled (r - 1) p)\<rparr>"
          by (simp add: Tick tick_running)
        have "calls_within cfg (step cfg ev s) (burst @ replicate n Tick)
                (waves_bound (Throttled (r - 1) p) (w - 1))"
          by (rule Cons.IH [OF rest d w']) (simp add: st)
        moreover have "waves_bound (Throttled (r - 1) p) (w - 1) \<le> waves_bound T w"
          using True w Throttled by (auto simp: waves_bound_def)
        ultimately have "calls_within cfg (step cfg ev s) (burst @ replicate n Tick) (waves_bound T w)"
          by (rule calls_within_mono)
        then show ?thesis
          by (simp add: calls_within_def st)
      next
        case False
        then have r: "r \<le> 1" by simp
        with w Throttled have b: "waves_bound T w = 2"
          by (simp add: waves_bound_def)
        show ?thesis
        proof (cases p)
          case None
          with t r have st: "step cfg ev s = s\<lparr>throttle := (\<lambda>c. Idle)\<rparr>"
            by (simp add: Tick tick_ends_idle)
          from Cons.IH [OF rest d w', of "step cfg ev s" Idle]
          have "calls_within cfg (step cfg ev s) (burst @ replicate n Tick) 2"
            by (simp add: st waves_bound_def)
          then show ?thesis
            by (simp add: calls_within_def st b)
        next
          case (Some v)
          with t r have st: "step cfg ev s =
              (wave cfg v s)\<lparr>throttle := (\<lambda>c. Throttled throttle_ms None)\<rparr>"
            by (simp add: Tick tick_ends_trailing)
          from Cons.IH [OF rest d w', of "step cfg ev s" "Throttled throttle_ms None"]
          have "calls_within cfg (step cfg ev s) (burst @ replicate n Tick) 1"
            using w' by (simp add: st waves_bound_def)
          with wave_calls [where cfg = cfg and inp = v and s = s and f = "\<lambda>c. Throttled throttle_ms None"]
          have "calls_within cfg s (ev # burst @ replicate n Tick) (1 + 1)"
            by (intro calls_within_Cons) (simp_all only: st)
          with b show ?thesis by (simp add: numeral_2_eq_2)
        qed
      qed
    qed
  qed
qed

lemma waves_bound_le: "waves_bound T w \<le> 2"
  by (simp add: waves_bound_def split: throttle.splits)

lemma synced_step:
  assumes "throttle s = (\<lambda>c. T)"
  shows "throttle (step cfg ev s) = (\<lambda>c. throttle (step cfg ev s) GlobalSub)"
proof -
  from assms have sync: "throttle s = (\<lambda>c. throttle s GlobalSub)"
    by simp
  from assms have T: "throttle s GlobalSub = T"
    by simp
  show ?thesis
  proof (cases ev)
    case (SetMainField v)
    show ?thesis
      unfolding SetMainField step_SetMainField_sync [OF sync] T
      using assms by (cases T) simp_all
  next
    case (SetMainFieldFilters v)
    show ?thesis
      unfolding SetMainFieldFilters step_SetMainFieldFilters_sync [OF sync] T
      using assms by (cases T) simp_all
  next
    case (SetComparisonFilters v)
    show ?thesis
      unfolding SetComparisonFilters step_SetComparisonFilters_sync [OF sync] T
      using assms by (cases T) simp_all
  next
    case Destroy
    then show ?thesis by (simp add: step_def destroy_eq)
  next
    case Tick
    show ?thesis
    proof (cases T)
      case Closed
      with assms Tick show ?thesis by (simp add: tick_closed)
    next
      case Idle
      with assms Tick show ?thesis by (simp add: tick_idle)
    next
      case (Throttled r p)
      with assms have t: "throttle s = (\<lambda>c. Throttled r p)" by simp
      show ?thesis
      proof (cases "1 < r")
        case True
        with t Tick show ?thesis by (simp add: tick_running)
      next
        case False
        with t Tick show ?thesis
          by (cases p) (simp_all add: tick_ends_idle tick_ends_trailing)
      qed
    qed
  qed
qed

lemma synced_run:
  "throttle s = (\<lambda>c. T) \<Longrightarrow> throttle (run cfg evs s) = (\<lambda>c. throttle (run cfg evs s) GlobalSub)"
proof (induction evs arbitrary: s T)
  case Nil
  then show ?case by simp
next
  case (Cons ev evs)
  show ?case
    unfolding run_Cons
    by (rule Cons.IH [OF synced_step [OF Cons.prems, where cfg = cfg and ev = ev]])
qed

lemma synced_reachable:
  "throttle (run cfg evs (construct cfg)) = (\<lambda>c. throttle (run cfg evs (construct cfg)) GlobalSub)"
  by (rule synced_run [OF throttle_construct])

lemma construct_eq:
  "construct cfg =
     (wave cfg \<lparr>mainField = None, mainFieldFilters = [], comparisonFilters = []\<rparr> (initial cfg))
       \<lparr>throttle := (\<lambda>c. Throttled throttle_ms None)\<rparr>"
  by (simp add: construct_def notify_idle initial_def) (simp add: inputs_def)

lemma comparisonAnalyses_calls_global:
  "comparisonAnalyses_calls (global_stage cfg inp) =
     (if mainField inp = None \<or> comparisonFilters inp = [] then 0 else 1)"
  by (simp add: comparisonAnalyses_calls_def global_fields split: option.splits)

lemma inputs_fields [simp]:
  "mainField (inputs s) = mainField s"
  "mainFieldFilters (inputs s) = mainFieldFilters s"
  "comparisonFilters (inputs s) = comparisonFilters s"
  by (simp_all add: inputs_def)

lemma quiet_store_facts:
  "throttle quiet_store = (\<lambda>c. Idle)"
  "mainField quiet_store = Some example_main"
  "comparisonFilters quiet_store = [high_filter]"
  "latest_compareGroup quiet_store =
     Some (compareGroup_value example_deps
       \<lparr>mainField = Some example_main, mainFieldFilters = [], comparisonFilters = [high_filter]\<rparr>)"
  "latest_global quiet_store =
     Some (global_stage example_deps
       \<lparr>mainField = Some example_main, mainFieldFilters = [], comparisonFilters = [high_filter]\<rparr>)"
  by (simp_all add: quiet_store_def follow construct_eq initial_def inputs_def)

lemma ten_calls_burst:
  "list_all burst_event ten_calls" "duration ten_calls = 45" "length ten_calls = 55"
  by (simp_all add: ten_calls_def burst_event_def duration_def is_tick_def list_all_iff)

text \<open>
  C7, as stated, fails: ten calls of \<^verbatim>\<open>setMainFieldFilters\<close> within 45 milliseconds on an idle
  store whose main field and comparison filter are set evaluate \<^verbatim>\<open>analyzeComparisons\<close> six
  times, three times in the leading wave and three times in the trailing wave.
\<close>

theorem ten_calls_six_comparisons:
  "list_all burst_event ten_calls \<and>
   length ten_calls - duration ten_calls = 10 \<and>
   duration ten_calls \<le> 50 \<and>
   comparisons_calls (run example_deps (ten_calls @ replicate throttle_ms Tick) quiet_store) =
     comparisons_calls quiet_store + 6 \<and>
   \<not> comparisons_calls (run example_deps (ten_calls @ replicate throttle_ms Tick) quiet_store)
       \<le> comparisons_calls quiet_store + 2"
proof -
  have "comparisons_calls (run example_deps (ten_calls @ replicate throttle_ms Tick) quiet_store) =
          comparisons_calls quiet_store + 6"
    by (simp add: ten_calls_def follow quiet_store_facts wave_comparisons_calls
        comparisonAnalyses_calls_global)
  then show ?thesis
    by (simp add: ten_calls_burst)
qed

text \<open>
  C7, amended. For every burst of calls of \<^verbatim>\<open>setMainFieldFilters\<close> (ten, or any other
  number) that takes at most 50 milliseconds, on a store in any state it can reach, and
  with no other call afterwards, every chain runs at most two waves:
  \<^verbatim>\<open>analyzeContributions\<close> is evaluated at most twice, and \<^verbatim>\<open>analyzeComparisons\<close> at most six
  times, since \<^verbatim>\<open>comparisonBase$\<close> combines three chains with a throttle each and
  \<^verbatim>\<open>comparisonAnalyses$\<close> evaluates once for each of them in a wave.
\<close>

theorem burst_analyzer_calls_bounded:
  assumes "s = run cfg history (construct cfg)"
    and "list_all burst_event burst"
    and "duration burst \<le> 50"
  shows "contributions_calls (run cfg (burst @ replicate n Tick) s) \<le> contributions_calls s + 2 \<and>
         comparisons_calls (run cfg (burst @ replicate n Tick) s) \<le> comparisons_calls s + 6"
proof -
  have sync: "throttle s = (\<lambda>c. throttle s GlobalSub)"
    unfolding assms(1) by (rule synced_reachable)
  have "calls_within cfg s (burst @ replicate n Tick) (waves_bound (throttle s GlobalSub) 50)"
    by (rule burst_calls [OF assms(2) assms(3) _ sync]) (simp add: throttle_ms_def)
  then have "calls_within cfg s (burst @ replicate n Tick) 2"
    using waves_bound_le by (rule calls_within_mono)
  then show ?thesis
    by (simp add: calls_within_def)
qed

theorem burst_analyzer_calls_bounded_witness:
  "list_all burst_event ten_calls \<and> duration ten_calls \<le> 50 \<and>
   contributions_calls (run example_deps (ten_calls @ replicate throttle_ms Tick) quiet_store)
     \<le> contributions_calls quiet_store + 2 \<and>
   comparisons_calls (run example_deps (ten_calls @ replicate throttle_ms Tick) quiet_store)
     \<le> comparisons_calls quiet_store + 6"
proof -
  have 1: "list_all burst_event ten_calls" and 2: "duration ten_calls \<le> 50"
    by (simp_all add: ten_calls_burst)
  from burst_analyzer_calls_bounded [OF quiet_store_def 1 2] 1 2 show ?thesis
    by simp
qed

section \<open>Between a call and its wave\<close>

text \<open>
  Between a call of a setter and the wave that a running throttle delays, the published
  fields are those of the earlier inputs: here the main field is null again, and the global
  statistics of the field set before are still published.
\<close>

lemma stale_while_throttled:
  "\<not> settled stale_store \<and> mainField stale_store = None \<and> globalStats stale_store \<noteq> None \<and>
   \<not> stats_null_invariant stale_store"
proof -
  have t: "throttle stale_store =
      (\<lambda>c. Throttled throttle_ms
             (Some \<lparr>mainField = None, mainFieldFilters = [], comparisonFilters = []\<rparr>))"
    by (simp add: stale_store_def follow construct_eq initial_def inputs_def)
  have m: "mainField stale_store = None"
    by (simp add: stale_store_def follow construct_eq initial_def inputs_def)
  have g: "globalStats stale_store \<noteq> None"
    by (simp add: stale_store_def follow construct_eq initial_def inputs_def wave_fields
        global_stage_def Let_def example_deps_def spec_deps_def resolveCompareTarget_spec_def
        example_main_def example_fields_def)
  from settled_sync [OF t] m g show ?thesis
    by (simp add: stats_null_invariant_def)
qed

section \<open>Repeating a call\<close>

lemma inputs_after_filters_call:
  "inputs (run cfg (SetMainFieldFilters F # replicate n Tick) s) = (inputs s)\<lparr>mainFieldFilters := F\<rparr>"
  by (simp add: inputs_ticks inputs_setMainFieldFilters del: inputs_fields) 

text \<open>
  C8. Two successive calls of \<^verbatim>\<open>setMainFieldFilters\<close> with arrays of the same contents, each
  followed by enough time for its wave to complete, publish the same selection statistics:
  they are computed from the dataset, the fields, the main field and the filters alone, as
  \<^verbatim>\<open>mainGroup$\<close> computes them: null without a main field, a resolved target or a filter, and
  otherwise \<^verbatim>\<open>statDivision\<close> of the dataset and the rows that \<^verbatim>\<open>applyDividers\<close> matches.
\<close>

theorem repeated_filters_same_stats:
  assumes "Destroy \<notin> set evs"
    and "s = run cfg evs (construct cfg)"
    and "s1 = run cfg (SetMainFieldFilters F # replicate n1 Tick) s"
    and "s2 = run cfg (SetMainFieldFilters F # replicate n2 Tick) s1"
    and "settled s1" and "settled s2"
  shows "selectionStats s2 = selectionStats s1 \<and>
         selectionStats s1 =
           m_stats (mainGroup_stage cfg (global_stage cfg
             \<lparr>mainField = mainField s, mainFieldFilters = F, comparisonFilters = []\<rparr>)) \<and>
         selectionStats s1 =
           (case mainField s of
              None \<Rightarrow> None
            | Some mf \<Rightarrow>
                (case resolveCompareTarget cfg mf (fieldMetas cfg) of
                   None \<Rightarrow> None
                 | Some t \<Rightarrow>
                     if F = [] then None
                     else Some \<lparr>defn = mf, stats_field = field t,
                                stats = statDivision cfg (data cfg)
                                          (fst (applyDividers cfg (data cfg) F))
                                          (fieldMetas cfg) (fid mf)\<rparr>))"
proof -
  have c0: "coherent cfg s"
    unfolding assms(2) using coherent_construct assms(1) by (rule coherent_run)
  have c1: "coherent cfg s1"
    unfolding assms(3) using c0 by (rule coherent_run) simp
  have c2: "coherent cfg s2"
    unfolding assms(4) using c1 by (rule coherent_run) simp
  have r1: "selectionStats s1 = m_stats (mainGroup_stage cfg (global_stage cfg (inputs s1)))"
    using coherent_settled_reflects [OF c1 assms(5)] by (simp add: reflects_def Let_def)
  have r2: "selectionStats s2 = m_stats (mainGroup_stage cfg (global_stage cfg (inputs s2)))"
    using coherent_settled_reflects [OF c2 assms(6)] by (simp add: reflects_def Let_def)
  have i1: "inputs s1 = (inputs s)\<lparr>mainFieldFilters := F\<rparr>"
    unfolding assms(3) by (rule inputs_after_filters_call)
  have i2: "inputs s2 = (inputs s1)\<lparr>mainFieldFilters := F\<rparr>"
    unfolding assms(4) by (rule inputs_after_filters_call)
  have e2: "m_stats (mainGroup_stage cfg (global_stage cfg (inputs s2))) =
        m_stats (mainGroup_stage cfg (global_stage cfg (inputs s1)))"
    by (rule selectionStats_depends) (simp_all add: i2 i1 del: inputs_fields)
  have e1: "m_stats (mainGroup_stage cfg (global_stage cfg (inputs s1))) =
        m_stats (mainGroup_stage cfg (global_stage cfg
          \<lparr>mainField = mainField s, mainFieldFilters = F, comparisonFilters = []\<rparr>))"
    by (rule selectionStats_depends) (simp_all add: i1 del: inputs_fields, simp add: inputs_def)
  have v: "m_stats (mainGroup_stage cfg (global_stage cfg
          \<lparr>mainField = mainField s, mainFieldFilters = F, comparisonFilters = []\<rparr>)) =
           (case mainField s of
              None \<Rightarrow> None
            | Some mf \<Rightarrow>
                (case resolveCompareTarget cfg mf (fieldMetas cfg) of
                   None \<Rightarrow> None
                 | Some t \<Rightarrow>
                     if F = [] then None
                     else Some \<lparr>defn = mf, stats_field = field t,
                                stats = statDivision cfg (data cfg)
                                          (fst (applyDividers cfg (data cfg) F))
                                          (fieldMetas cfg) (fid mf)\<rparr>))"
    by (simp add: mainGroup_stats split: option.splits)
  from r1 r2 e1 e2 v show ?thesis
    by simp
qed

lemma throttle_after_call:
  assumes "throttle s = (\<lambda>c. Throttled r p)" and "0 < r"
  shows "throttle (run cfg (replicate r Tick) (notify cfg s)) = (\<lambda>c. Throttled throttle_ms None)"
proof -
  have "notify cfg s = s\<lparr>throttle := (\<lambda>c. Throttled r (Some (inputs s)))\<rparr>"
    using assms(1) by (rule notify_throttled)
  moreover have "run cfg (replicate r Tick) (s\<lparr>throttle := (\<lambda>c. Throttled r (Some (inputs s)))\<rparr>) =
      (wave cfg (inputs s) (s\<lparr>throttle := (\<lambda>c. Throttled r (Some (inputs s)))\<rparr>))
        \<lparr>throttle := (\<lambda>c. Throttled throttle_ms None)\<rparr>"
    by (rule run_ticks_trailing) (simp_all add: assms(2))
  ultimately show ?thesis
    by simp
qed

lemma main_history_store:
  "throttle (run example_deps main_history (construct example_deps)) =
     (\<lambda>c. Throttled throttle_ms None)"
  "mainField (run example_deps main_history (construct example_deps)) = Some example_main"
  by (simp_all add: main_history_def follow construct_eq initial_def)

theorem repeated_filters_same_stats_witness:
  "Destroy \<notin> set main_history \<and>
   settled (run example_deps filter_call (run example_deps main_history (construct example_deps))) \<and>
   settled (run example_deps filter_call
              (run example_deps filter_call (run example_deps main_history (construct example_deps)))) \<and>
   selectionStats
     (run example_deps filter_call
        (run example_deps filter_call (run example_deps main_history (construct example_deps)))) =
   selectionStats
     (run example_deps filter_call (run example_deps main_history (construct example_deps))) \<and>
   map_option (\<lambda>st. (defn st, fid (stats_field st), stats st Sum, stats st Mean, stats st Count))
     (selectionStats
        (run example_deps filter_call (run example_deps main_history (construct example_deps)))) =
     Some (example_main, ''a'', 30, 15, 2)"
proof -
  let ?s = "run example_deps main_history (construct example_deps)"
  let ?s1 = "run example_deps filter_call ?s"
  let ?s2 = "run example_deps filter_call ?s1"
  have 0: "Destroy \<notin> set main_history"
    by (simp add: main_history_def)
  have t1: "throttle ?s1 = (\<lambda>c. Throttled throttle_ms None)"
    using throttle_after_call [of "?s\<lparr>mainFieldFilters := [low_filter]\<rparr>"
        throttle_ms None example_deps]
    by (simp add: filter_call_def step_def setMainFieldFilters_def main_history_store throttle_ms_def)
  have t2: "throttle ?s2 = (\<lambda>c. Throttled throttle_ms None)"
    using throttle_after_call [of "?s1\<lparr>mainFieldFilters := [low_filter]\<rparr>"
        throttle_ms None example_deps] t1
    by (simp add: filter_call_def step_def setMainFieldFilters_def throttle_ms_def)
  have 1: "settled ?s1"
    using settled_sync [OF t1] by simp
  have 2: "settled ?s2"
    using settled_sync [OF t2] by simp
  have s1: "?s1 = run example_deps (SetMainFieldFilters [low_filter] # replicate throttle_ms Tick) ?s"
    by (simp only: filter_call_def)
  have s2: "?s2 = run example_deps (SetMainFieldFilters [low_filter] # replicate throttle_ms Tick) ?s1"
    by (simp only: filter_call_def)
  note app = repeated_filters_same_stats [OF 0 refl s1 s2 1 2]
  have r: "resolveCompareTarget example_deps example_main (fieldMetas example_deps) =
             Some \<lparr>field = \<lparr>fid = ''a'', name = ''Amount'', semanticType = Quantitative\<rparr>\<rparr>"
    by (simp add: example_deps_def spec_deps_def resolveCompareTarget_spec_def example_main_def
        example_fields_def)
  have m: "fid example_main = ''a''"
    by (simp add: example_main_def)
  have d: "data example_deps = example_rows" "applyDividers example_deps = applyDividers_spec"
    "statDivision example_deps = statDivision_spec"
    by (simp_all add: example_deps_def spec_deps_def)
  have eq: "selectionStats ?s2 = selectionStats ?s1"
    using app by (rule conjunct1)
  have "selectionStats ?s1 =
      Some \<lparr>defn = example_main,
            stats_field = \<lparr>fid = ''a'', name = ''Amount'', semanticType = Quantitative\<rparr>,
            stats = statDivision_spec example_rows
                      [[(''a'', Num 10), (''b'', Num 1)], [(''a'', Num 20), (''b'', Num 2)]]
                      (fieldMetas example_deps) ''a''\<rparr>"
    unfolding app [THEN conjunct2, THEN conjunct2]
    by (simp add: main_history_store r m d example_eval)
  then have v: "map_option (\<lambda>st. (defn st, fid (stats_field st), stats st Sum, stats st Mean, stats st Count))
       (selectionStats ?s1) = Some (example_main, ''a'', 30, 15, 2)"
    by (simp add: statDivision_spec_def cell_of_def)
  from eq 0 1 2 v show ?thesis
    by simp
qed

end
